theory Spec2Isabelle
  imports Main "HOL-Library.Multiset"
begin

section \<open>Cards and players (src/GameLogic.js, classes Card and Player)\<close>

datatype cardType = Number | Peek | Swap | Draw2 | AddCard

text \<open>A card carries its type and, for number cards, its value (\<open>null\<close> otherwise).\<close>

datatype card = Card (ctype: cardType) (cvalue: "nat option")

text \<open>\<open>getPoints\<close>: the value of a number card, 0 for a power card. A number card without
  a value would return \<open>null\<close>, which the sum of \<open>calculateScore\<close> adds as 0.\<close>

definition getPoints :: "card \<Rightarrow> nat" where
  "getPoints c = (if ctype c = Number then (case cvalue c of Some v \<Rightarrow> v | None \<Rightarrow> 0) else 0)"

definition isPowerCard :: "card \<Rightarrow> bool" where
  "isPowerCard c = (ctype c \<noteq> Number)"

record player =
  pid :: string
  pname :: string
  hand :: "card list"
  knownCards :: "bool list"
  score :: nat
  totalScore :: nat

definition newPlayer :: "string \<Rightarrow> string \<Rightarrow> player" where
  "newPlayer i n = \<lparr>pid = i, pname = n, hand = [], knownCards = [], score = 0, totalScore = 0\<rparr>"

text \<open>Writing \<open>knownCards[i] = v\<close>: in range it overwrites; beyond the end a JavaScript array
  grows, the skipped positions being holes that read as \<open>undefined\<close> (falsy), kept here as
  \<open>False\<close>. Reading beyond the end gives \<open>undefined\<close>, again falsy.\<close>

definition knownAssign :: "bool list \<Rightarrow> nat \<Rightarrow> bool \<Rightarrow> bool list" where
  "knownAssign ks i v =
     (if i < length ks then ks[i := v] else ks @ replicate (i - length ks) False @ [v])"

definition knownAt :: "bool list \<Rightarrow> nat \<Rightarrow> bool" where
  "knownAt ks i = (i < length ks \<and> ks ! i)"

definition addCard :: "card \<Rightarrow> player \<Rightarrow> player" where
  "addCard c p = p\<lparr>hand := hand p @ [c], knownCards := knownCards p @ [False]\<rparr>"

definition calculateScore :: "player \<Rightarrow> player" where
  "calculateScore p = p\<lparr>score := sum_list (map getPoints (hand p))\<rparr>"

section \<open>The match state (class RatATatCatGame)\<close>

text \<open>\<open>currentPlayerIndex\<close> is a JavaScript number: \<open>(i + 1) % 0\<close> is \<open>NaN\<close>, which stays
  \<open>NaN\<close> under further arithmetic, compares false with everything and indexes no player.\<close>

datatype jsIndex = Idx nat | NaN

text \<open>The deck and the discard pile are arrays whose last element is the top. Their entries
  are nullable, because \<open>handleDraw2Card\<close> pushes \<open>drawnCard\<close> without testing it.
  \<open>Math.random()\<close> is the only input from outside: the state carries the sequence of values
  it will produce (\<open>randomValues\<close>) and how many were consumed (\<open>randomUsed\<close>).\<close>

record game =
  gameId :: string
  players :: "player list"
  deck :: "card option list"
  discardPile :: "card option list"
  currentPlayerIndex :: jsIndex
  drawnCard :: "card option"
  drawnFromDiscard :: bool
  gameStarted :: bool
  roundEnded :: bool
  knockerId :: "string option"
  finalRoundActive :: bool
  playersCompletedFinalTurn :: nat
  draw2ChainActive :: bool
  draw2CardsRemaining :: int
  randomValues :: "nat \<Rightarrow> nat"
  randomUsed :: nat

definition newGame :: "string \<Rightarrow> (nat \<Rightarrow> nat) \<Rightarrow> game" where
  "newGame gid rs = \<lparr>gameId = gid, players = [], deck = [], discardPile = [],
     currentPlayerIndex = Idx 0, drawnCard = None, drawnFromDiscard = False,
     gameStarted = False, roundEnded = False, knockerId = None, finalRoundActive = False,
     playersCompletedFinalTurn = 0, draw2ChainActive = False, draw2CardsRemaining = 0,
     randomValues = rs, randomUsed = 0\<rparr>"

text \<open>What a call does besides returning: it may throw a TypeError (a property read on
  \<open>null\<close> or \<open>undefined\<close>), and a call that never returns is the value \<open>None\<close> of the
  enclosing option.\<close>

datatype 'a outcome = Returns 'a | Throws

subsection \<open>Deck management\<close>

text \<open>The 56 cards \<open>initializeDeck\<close> pushes, in the order it pushes them.\<close>

definition numberCards :: "card list" where
  "numberCards = concat (map (\<lambda>v. replicate 4 (Card Number (Some v))) [0..<9])
                 @ replicate 9 (Card Number (Some 9))"

definition powerCards :: "card list" where
  "powerCards = concat (replicate 3 [Card Peek None, Card Swap None, Card Draw2 None])
                @ replicate 2 (Card AddCard None)"

definition freshDeck :: "card list" where
  "freshDeck = numberCards @ powerCards"

text \<open>\<open>shuffleDeck\<close>: for \<open>i\<close> from the last index down to 1, swap positions \<open>i\<close> and
  \<open>j = floor (random * (i + 1))\<close>, a value between 0 and \<open>i\<close>, here the next random value
  modulo \<open>i + 1\<close>.\<close>

fun shuffleLoop :: "nat \<Rightarrow> 'a list \<Rightarrow> (nat \<Rightarrow> nat) \<Rightarrow> nat \<Rightarrow> 'a list \<times> nat" where
  "shuffleLoop 0 d rs u = (d, u)"
| "shuffleLoop (Suc k) d rs u =
     (let j = rs u mod (Suc k + 1)
      in shuffleLoop k (d[Suc k := d ! j, j := d ! Suc k]) rs (Suc u))"

definition shuffleDeck :: "game \<Rightarrow> game" where
  "shuffleDeck g =
     (case shuffleLoop (length (deck g) - 1) (deck g) (randomValues g) (randomUsed g) of
        (d, u) \<Rightarrow> g\<lparr>deck := d, randomUsed := u\<rparr>)"

definition initializeDeck :: "game \<Rightarrow> game" where
  "initializeDeck g = shuffleDeck (g\<lparr>deck := map Some freshDeck\<rparr>)"

text \<open>\<open>drawCard\<close>: an empty deck is refilled from the discard pile below its top when that
  pile has more than one entry; the result is the popped top of the deck, \<open>null\<close> when the
  deck is still empty (or when the popped entry is \<open>null\<close>).\<close>

definition reshuffle :: "game \<Rightarrow> game" where
  "reshuffle g =
     (if deck g = [] \<and> length (discardPile g) > 1
      then shuffleDeck (g\<lparr>deck := butlast (discardPile g), discardPile := [last (discardPile g)]\<rparr>)
      else g)"

definition drawCard :: "game \<Rightarrow> card option \<times> game" where
  "drawCard g =
     (let g1 = reshuffle g
      in if deck g1 \<noteq> [] then (last (deck g1), g1\<lparr>deck := butlast (deck g1)\<rparr>)
         else (None, g1))"

subsection \<open>Players of a match\<close>

definition currentSlot :: "game \<Rightarrow> nat option" where
  "currentSlot g =
     (case currentPlayerIndex g of
        NaN \<Rightarrow> None
      | Idx i \<Rightarrow> if i < length (players g) then Some i else None)"

definition getCurrentPlayer :: "game \<Rightarrow> player option" where
  "getCurrentPlayer g = map_option (\<lambda>i. players g ! i) (currentSlot g)"

text \<open>The methods mutate the player objects the list holds; here the list is updated at the
  player's position.\<close>

definition updPlayer :: "nat \<Rightarrow> (player \<Rightarrow> player) \<Rightarrow> game \<Rightarrow> game" where
  "updPlayer i f g = g\<lparr>players := (players g)[i := f (players g ! i)]\<rparr>"

primrec findPlayer :: "string \<Rightarrow> player list \<Rightarrow> nat option" where
  "findPlayer x [] = None"
| "findPlayer x (p # ps) = (if pid p = x then Some 0 else map_option Suc (findPlayer x ps))"

fun nextIndex :: "jsIndex \<Rightarrow> nat \<Rightarrow> jsIndex" where
  "nextIndex NaN n = NaN"
| "nextIndex (Idx i) n = (if n = 0 then NaN else Idx ((i + 1) mod n))"

definition addPlayer :: "string \<Rightarrow> string \<Rightarrow> game \<Rightarrow> bool \<times> game" where
  "addPlayer playerId playerName g =
     (if length (players g) \<ge> 6 then (False, g)
      else if gameStarted g then (False, g)
      else (True, g\<lparr>players := players g @ [newPlayer playerId playerName]\<rparr>))"

definition removePlayer :: "string \<Rightarrow> game \<Rightarrow> bool \<times> game" where
  "removePlayer playerId g =
     (let g1 = g\<lparr>players := filter (\<lambda>p. pid p \<noteq> playerId) (players g)\<rparr>;
          g2 = (case currentPlayerIndex g1 of
                  Idx i \<Rightarrow> if i \<ge> length (players g1) then g1\<lparr>currentPlayerIndex := Idx 0\<rparr> else g1
                | NaN \<Rightarrow> g1)
      in (players g2 = [], g2))"

subsection \<open>End of the round\<close>

text \<open>The inner \<open>while\<close> of \<open>endRound\<close> for player \<open>pi\<close> and slot \<open>i\<close>: as long as the slot
  holds a power card, draw; a number card replaces it and is marked known, a power card is
  dropped and the loop goes on, \<open>null\<close> leaves the loop.\<close>

function replacePowerCard :: "nat \<Rightarrow> nat \<Rightarrow> game \<Rightarrow> game" where
  "replacePowerCard pi i g =
     (if pi < length (players g) \<and> i < length (hand (players g ! pi))
         \<and> isPowerCard (hand (players g ! pi) ! i)
      then (case drawCard g of
              (None, g1) \<Rightarrow> g1
            | (Some r, g1) \<Rightarrow>
                if ctype r = Number
                then replacePowerCard pi i
                       (updPlayer pi (\<lambda>p. p\<lparr>hand := (hand p)[i := r],
                                              knownCards := knownAssign (knownCards p) i True\<rparr>) g1)
                else replacePowerCard pi i g1)
      else g)"
  by pat_completeness auto
termination
proof -
  have len: "length (fst (shuffleLoop k d rs u)) = length d"
    for k and d :: "card option list" and rs u
    by (induction k arbitrary: d u) (simp_all add: Let_def)
  have draw: "Suc (length (deck g1) + length (discardPile g1))
        = length (deck g) + length (discardPile g) \<and> players g1 = players g"
    if "drawCard g = (Some r, g1)" for g g1 r
    using that len[of "length (butlast (discardPile g)) - 1" "butlast (discardPile g)"
                      "randomValues g" "randomUsed g"]
    by (auto simp: drawCard_def reshuffle_def shuffleDeck_def Let_def
             split: if_splits prod.splits)
  show ?thesis
    by (relation "measure (\<lambda>(pi, i, g).
           if pi < length (players g) \<and> i < length (hand (players g ! pi))
              \<and> isPowerCard (hand (players g ! pi) ! i)
           then Suc (length (deck g) + length (discardPile g)) else 0)")
       (auto dest!: draw[OF sym] simp: updPlayer_def isPowerCard_def)
qed

declare replacePowerCard.simps [simp del]

text \<open>The body of the \<open>forEach\<close> of \<open>endRound\<close> for the player at position \<open>pi\<close>: every slot
  in turn, then the score.\<close>

definition endRoundPlayer :: "game \<Rightarrow> nat \<Rightarrow> game" where
  "endRoundPlayer g pi =
     (let g1 = fold (replacePowerCard pi) [0..<length (hand (players g ! pi))] g
      in updPlayer pi (\<lambda>p. let q = calculateScore p in q\<lparr>totalScore := totalScore q + score q\<rparr>) g1)"

definition endRound :: "game \<Rightarrow> game" where
  "endRound g = (fold (\<lambda>pi h. endRoundPlayer h pi) [0..<length (players g)] g)\<lparr>roundEnded := True\<rparr>"

subsection \<open>Turn advancement\<close>

text \<open>The \<open>do ... while\<close> of \<open>endTurn\<close>: advance, and again as long as the final round is
  active and the player reached is the knocker. It never returns when every player is.\<close>

partial_function (option) advanceTurn :: "game \<Rightarrow> game outcome option" where
  "advanceTurn g =
     (let g1 = g\<lparr>currentPlayerIndex := nextIndex (currentPlayerIndex g) (length (players g))\<rparr>
      in if finalRoundActive g1
         then (case getCurrentPlayer g1 of
                 None \<Rightarrow> Some Throws
               | Some p \<Rightarrow> if Some (pid p) = knockerId g1 then advanceTurn g1
                           else Some (Returns g1))
         else Some (Returns g1))"

declare advanceTurn.simps [code]

definition endTurn :: "game \<Rightarrow> game outcome option" where
  "endTurn g =
     (let g1 = g\<lparr>drawnCard := None, drawnFromDiscard := False\<rparr>
      in if finalRoundActive g1
         then (let g2 = g1\<lparr>playersCompletedFinalTurn := playersCompletedFinalTurn g1 + 1\<rparr>
               in if int (playersCompletedFinalTurn g2) \<ge> int (length (players g2)) - 1
                  then Some (Returns (endRound g2))
                  else advanceTurn g2)
         else advanceTurn g1)"

text \<open>The \<open>do ... while\<close> of \<open>knock\<close>, which tests the knocker only.\<close>

partial_function (option) knockAdvance :: "game \<Rightarrow> game outcome option" where
  "knockAdvance g =
     (let g1 = g\<lparr>currentPlayerIndex := nextIndex (currentPlayerIndex g) (length (players g))\<rparr>
      in case getCurrentPlayer g1 of
           None \<Rightarrow> Some Throws
         | Some p \<Rightarrow> if Some (pid p) = knockerId g1 then knockAdvance g1
                     else Some (Returns g1))"

declare knockAdvance.simps [code]

subsection \<open>Results of the action methods\<close>

datatype result =
    Failure string
  | Done
  | Drawn card bool
  | Revealed card
  | SwappedWith string
  | Draw2Card "card option" bool int
  | Draw2Next card int
  | Draw2Complete
  | Added "card option"

fun success :: "result \<Rightarrow> bool" where
  "success (Failure e) = False"
| "success r = True"

text \<open>\<open>this.endTurn(); return r\<close>.\<close>

fun returning :: "result \<Rightarrow> game outcome option \<Rightarrow> (result \<times> game) outcome option" where
  "returning r None = None"
| "returning r (Some Throws) = Some Throws"
| "returning r (Some (Returns g)) = Some (Returns (r, g))"

subsection \<open>Turn actions\<close>

definition drawFromDiscardPile :: "game \<Rightarrow> (result \<times> game) outcome option" where
  "drawFromDiscardPile g =
     (if drawnCard g \<noteq> None then Some (Returns (Failure ''Already drawn a card this turn'', g))
      else if discardPile g = [] then Some (Returns (Failure ''Discard pile empty'', g))
      else (case last (discardPile g) of
              None \<Rightarrow> Some Throws
            | Some c \<Rightarrow>
                let g1 = g\<lparr>discardPile := butlast (discardPile g)\<rparr>
                in if isPowerCard c
                   then Some (Returns (Failure ''Cannot draw power cards from discard pile'',
                                       g1\<lparr>discardPile := discardPile g1 @ [Some c]\<rparr>))
                   else Some (Returns (Drawn c True,
                                       g1\<lparr>drawnCard := Some c, drawnFromDiscard := True\<rparr>))))"

definition drawFromDeck :: "game \<Rightarrow> (result \<times> game) outcome option" where
  "drawFromDeck g =
     (if drawnCard g \<noteq> None then Some (Returns (Failure ''Already drawn a card this turn'', g))
      else (case drawCard g of
              (None, g1) \<Rightarrow> Some (Returns (Failure ''Deck is empty'', g1))
            | (Some c, g1) \<Rightarrow>
                Some (Returns (Drawn c False, g1\<lparr>drawnCard := Some c, drawnFromDiscard := False\<rparr>))))"

definition replaceCardInHand :: "int \<Rightarrow> game \<Rightarrow> (result \<times> game) outcome option" where
  "replaceCardInHand cardIndex g =
     (case drawnCard g of
        None \<Rightarrow> Some (Returns (Failure ''No card drawn'', g))
      | Some dc \<Rightarrow>
          (case currentSlot g of
             None \<Rightarrow> Some Throws
           | Some ci \<Rightarrow>
               if cardIndex < 0 \<or> cardIndex \<ge> int (length (hand (players g ! ci)))
               then Some (Returns (Failure ''Invalid card index'', g))
               else let i = nat cardIndex;
                        replacedCard = hand (players g ! ci) ! i;
                        g1 = updPlayer ci (\<lambda>p. p\<lparr>hand := (hand p)[i := dc]\<rparr>) g;
                        g2 = g1\<lparr>discardPile := discardPile g1 @ [Some replacedCard]\<rparr>;
                        g3 = g2\<lparr>drawnCard := None, drawnFromDiscard := False\<rparr>
                    in returning Done (endTurn g3)))"

definition discardDrawnCard :: "game \<Rightarrow> (result \<times> game) outcome option" where
  "discardDrawnCard g =
     (if drawnCard g = None then Some (Returns (Failure ''No card drawn'', g))
      else if drawnFromDiscard g
      then Some (Returns (Failure ''Cannot discard card from discard pile'', g))
      else let g1 = g\<lparr>discardPile := discardPile g @ [drawnCard g]\<rparr>;
               g2 = g1\<lparr>drawnCard := None\<rparr>
           in returning Done (endTurn g2))"

subsection \<open>Power cards\<close>

text \<open>\<open>!this.drawnCard || this.drawnCard.type !== t\<close>.\<close>

definition notDrawn :: "cardType \<Rightarrow> game \<Rightarrow> bool" where
  "notDrawn t g = (case drawnCard g of None \<Rightarrow> True | Some c \<Rightarrow> ctype c \<noteq> t)"

definition usePeek :: "int \<Rightarrow> game \<Rightarrow> (result \<times> game) outcome option" where
  "usePeek cardIndex g =
     (if notDrawn Peek g then Some (Returns (Failure ''No peek card drawn'', g))
      else (case currentSlot g of
              None \<Rightarrow> Some Throws
            | Some ci \<Rightarrow>
                if cardIndex < 0 \<or> cardIndex \<ge> int (length (hand (players g ! ci)))
                then Some (Returns (Failure ''Invalid card index'', g))
                else let peekedCard = hand (players g ! ci) ! nat cardIndex;
                         g1 = g\<lparr>discardPile := discardPile g @ [drawnCard g]\<rparr>;
                         g2 = g1\<lparr>drawnCard := None, drawnFromDiscard := False\<rparr>
                     in returning (Revealed peekedCard) (endTurn g2)))"

text \<open>\<open>useSwap\<close>: the current player is read first (a TypeError when there is none comes at
  \<open>player.id\<close>, after the opponent was found), then the checks in the order of the source.\<close>

definition useSwap :: "int \<Rightarrow> string \<Rightarrow> int \<Rightarrow> game \<Rightarrow> (result \<times> game) outcome option" where
  "useSwap myCardIndex opponentId opponentCardIndex g =
     (if notDrawn Swap g then Some (Returns (Failure ''No swap card drawn'', g))
      else (case findPlayer opponentId (players g) of
              None \<Rightarrow> Some (Returns (Failure ''Invalid opponent'', g))
            | Some oi \<Rightarrow>
               (case currentSlot g of
                  None \<Rightarrow> Some Throws
                | Some ci \<Rightarrow>
                    if pid (players g ! oi) = pid (players g ! ci)
                    then Some (Returns (Failure ''Cannot swap with yourself'', g))
                    else if myCardIndex < 0 \<or> myCardIndex \<ge> int (length (hand (players g ! ci)))
                    then Some (Returns (Failure ''Invalid your card index'', g))
                    else if opponentCardIndex < 0
                            \<or> opponentCardIndex \<ge> int (length (hand (players g ! oi)))
                    then Some (Returns (Failure ''Invalid opponent card index'', g))
                    else let mi = nat myCardIndex; oj = nat opponentCardIndex;
                             myCard = hand (players g ! ci) ! mi;
                             theirCard = hand (players g ! oi) ! oj;
                             g1 = updPlayer ci (\<lambda>p. p\<lparr>hand := (hand p)[mi := theirCard]\<rparr>) g;
                             g2 = updPlayer oi (\<lambda>p. p\<lparr>hand := (hand p)[oj := myCard]\<rparr>) g1;
                             g3 = updPlayer ci
                                    (\<lambda>p. p\<lparr>knownCards := knownAssign (knownCards p) mi False\<rparr>) g2;
                             g4 = updPlayer oi
                                    (\<lambda>p. p\<lparr>knownCards := knownAssign (knownCards p) oj False\<rparr>) g3;
                             g5 = g4\<lparr>discardPile := discardPile g4 @ [drawnCard g4]\<rparr>;
                             g6 = g5\<lparr>drawnCard := None, drawnFromDiscard := False\<rparr>
                         in returning (SwappedWith (pname (players g ! oi))) (endTurn g6))))"

definition declineSwap :: "game \<Rightarrow> (result \<times> game) outcome option" where
  "declineSwap g =
     (if notDrawn Swap g then Some (Returns (Failure ''No swap card drawn'', g))
      else let g1 = g\<lparr>discardPile := discardPile g @ [drawnCard g]\<rparr>;
               g2 = g1\<lparr>drawnCard := None, drawnFromDiscard := False\<rparr>
           in returning Done (endTurn g2))"

text \<open>\<open>useDraw2\<close>: the Draw-Two goes to the discard pile and the chain starts; the first card
  is drawn, with a test for \<open>null\<close>; a Draw-Two drawn there is discarded and the card after
  it is drawn and stored as it comes.\<close>

definition useDraw2 :: "game \<Rightarrow> (result \<times> game) outcome option" where
  "useDraw2 g =
     (if notDrawn Draw2 g then Some (Returns (Failure ''No draw2 card drawn'', g))
      else let g1 = g\<lparr>discardPile := discardPile g @ [drawnCard g]\<rparr>;
               g2 = g1\<lparr>drawnCard := None\<rparr>;
               g3 = g2\<lparr>draw2ChainActive := True, draw2CardsRemaining := 2\<rparr>
           in (case drawCard g3 of
                 (None, g4) \<Rightarrow>
                   returning (Failure ''Deck empty'') (endTurn (g4\<lparr>draw2ChainActive := False\<rparr>))
               | (Some firstCard, g4) \<Rightarrow>
                   let g5 = g4\<lparr>drawnCard := Some firstCard\<rparr>
                   in if ctype firstCard = Draw2
                      then let g6 = g5\<lparr>discardPile := discardPile g5 @ [Some firstCard]\<rparr>;
                               g7 = g6\<lparr>drawnCard := None, draw2CardsRemaining := 2\<rparr>
                           in (case drawCard g7 of
                                 (nextCard, g8) \<Rightarrow>
                                   Some (Returns (Draw2Card nextCard True 2,
                                                  g8\<lparr>drawnCard := nextCard\<rparr>)))
                      else Some (Returns (Draw2Card (Some firstCard) False 2, g5))))"

text \<open>\<open>handleDraw2Card(action, cardIndex = null)\<close>.\<close>

definition handleDraw2Card :: "string \<Rightarrow> int option \<Rightarrow> game \<Rightarrow> (result \<times> game) outcome option" where
  "handleDraw2Card action cardIndex g =
     (if \<not> draw2ChainActive g then Some (Returns (Failure ''No Draw 2 active'', g))
      else (case (if action = ''use'' then cardIndex else None) of
              Some ix \<Rightarrow>
                (case replaceCardInHand ix g of
                   Some (Returns (r, g1)) \<Rightarrow>
                     if success r
                     then Some (Returns (r, g1\<lparr>draw2ChainActive := False, draw2CardsRemaining := 0\<rparr>))
                     else Some (Returns (r, g1))
                 | x \<Rightarrow> x)
            | None \<Rightarrow>
                if action = ''discard''
                then let g1 = g\<lparr>discardPile := discardPile g @ [drawnCard g]\<rparr>;
                         g2 = g1\<lparr>drawnCard := None\<rparr>;
                         g3 = g2\<lparr>draw2CardsRemaining := draw2CardsRemaining g2 - 1\<rparr>
                     in if draw2CardsRemaining g3 > 0
                        then (case drawCard g3 of
                                (None, g4) \<Rightarrow>
                                  returning (Failure ''Deck empty'')
                                    (endTurn (g4\<lparr>draw2ChainActive := False\<rparr>))
                              | (Some nextCard, g4) \<Rightarrow>
                                  let g5 = g4\<lparr>drawnCard := Some nextCard\<rparr>
                                  in if ctype nextCard = Draw2
                                     then let g6 = g5\<lparr>discardPile := discardPile g5 @ [Some nextCard]\<rparr>;
                                              g7 = g6\<lparr>drawnCard := None, draw2CardsRemaining := 2\<rparr>
                                          in (case drawCard g7 of
                                                (chainCard, g8) \<Rightarrow>
                                                  Some (Returns (Draw2Card chainCard True 2,
                                                                 g8\<lparr>drawnCard := chainCard\<rparr>)))
                                     else Some (Returns (Draw2Next nextCard (draw2CardsRemaining g5), g5)))
                        else returning Draw2Complete (endTurn (g3\<lparr>draw2ChainActive := False\<rparr>))
                else Some (Returns (Failure ''Invalid action'', g))))"

text \<open>\<open>useAddCard\<close>: the current player is dereferenced only when a card was drawn.\<close>

definition useAddCard :: "game \<Rightarrow> (result \<times> game) outcome option" where
  "useAddCard g =
     (if notDrawn AddCard g then Some (Returns (Failure ''No addcard drawn'', g))
      else (case drawCard g of
              (newCard, g1) \<Rightarrow>
                (case (case newCard of
                         None \<Rightarrow> Returns g1
                       | Some c \<Rightarrow> (case currentSlot g of
                                      None \<Rightarrow> Throws
                                    | Some ci \<Rightarrow> Returns (updPlayer ci (addCard c) g1))) of
                   Throws \<Rightarrow> Some Throws
                 | Returns g2 \<Rightarrow>
                     let g3 = g2\<lparr>discardPile := discardPile g2 @ [drawnCard g2]\<rparr>;
                         g4 = g3\<lparr>drawnCard := None, drawnFromDiscard := False\<rparr>
                     in returning (Added newCard) (endTurn g4))))"

subsection \<open>Knocking\<close>

text \<open>\<open>if (this.knockerId)\<close>: \<open>null\<close> and the empty string are falsy.\<close>

definition truthyId :: "string option \<Rightarrow> bool" where
  "truthyId k = (case k of None \<Rightarrow> False | Some s \<Rightarrow> s \<noteq> [])"

definition knock :: "game \<Rightarrow> (result \<times> game) outcome option" where
  "knock g =
     (if truthyId (knockerId g) then Some (Returns (Failure ''Someone already knocked'', g))
      else (case getCurrentPlayer g of
              None \<Rightarrow> Some Throws
            | Some player \<Rightarrow>
                let g1 = g\<lparr>knockerId := Some (pid player), finalRoundActive := True,
                           playersCompletedFinalTurn := 0\<rparr>;
                    g2 = g1\<lparr>drawnCard := None, drawnFromDiscard := False\<rparr>
                in returning Done (knockAdvance g2)))"

subsection \<open>Starting a round\<close>

text \<open>The deal: each player's hand and known-mask are emptied, then four cards are drawn and
  pushed. A draw that returns \<open>null\<close> here finds the fresh deck used up, the discard pile
  being empty; the source pushes the \<open>null\<close> and goes on, every later draw returns \<open>null\<close>
  as well, and \<open>firstDiscard.isPowerCard()\<close> throws. The deal stops with \<open>None\<close> at the
  first \<open>null\<close>, and \<open>startRound\<close> turns that into the TypeError.\<close>

fun dealCards :: "nat \<Rightarrow> nat \<Rightarrow> game \<Rightarrow> game option" where
  "dealCards 0 pi g = Some g"
| "dealCards (Suc n) pi g =
     (case drawCard g of
        (None, g1) \<Rightarrow> None
      | (Some c, g1) \<Rightarrow>
          dealCards n pi (updPlayer pi (\<lambda>p. p\<lparr>hand := hand p @ [c],
                                                knownCards := knownCards p @ [False]\<rparr>) g1))"

definition dealPlayer :: "nat \<Rightarrow> game \<Rightarrow> game option" where
  "dealPlayer pi g = dealCards 4 pi (updPlayer pi (\<lambda>p. p\<lparr>hand := [], knownCards := []\<rparr>) g)"

fun dealAll :: "nat list \<Rightarrow> game \<Rightarrow> game option" where
  "dealAll [] g = Some g"
| "dealAll (pi # pis) g = (case dealPlayer pi g of None \<Rightarrow> None | Some g1 \<Rightarrow> dealAll pis g1)"

text \<open>The \<open>while\<close> of \<open>startRound\<close>: a power card goes back to the front of the deck, the deck
  is shuffled and the next card drawn. Nothing bounds the number of rounds.\<close>

partial_function (option) firstDiscardLoop ::
    "card option \<Rightarrow> game \<Rightarrow> (card \<times> game) outcome option" where
  "firstDiscardLoop firstDiscard g =
     (case firstDiscard of
        None \<Rightarrow> Some Throws
      | Some c \<Rightarrow>
          if isPowerCard c
          then (case drawCard (shuffleDeck (g\<lparr>deck := Some c # deck g\<rparr>)) of
                  (d, g1) \<Rightarrow> firstDiscardLoop d g1)
          else Some (Returns (c, g)))"

declare firstDiscardLoop.simps [code]

definition startRound :: "game \<Rightarrow> (bool \<times> game) outcome option" where
  "startRound g =
     (if length (players g) < 2 then Some (Returns (False, g))
      else let g1 = initializeDeck g;
               g2 = g1\<lparr>discardPile := [], roundEnded := False, knockerId := None,
                         finalRoundActive := False, playersCompletedFinalTurn := 0\<rparr>
           in (case dealAll [0..<length (players g2)] g2 of
                 None \<Rightarrow> Some Throws
               | Some g3 \<Rightarrow>
                   (case drawCard g3 of
                      (d, g4) \<Rightarrow>
                        (case firstDiscardLoop d g4 of
                           None \<Rightarrow> None
                         | Some Throws \<Rightarrow> Some Throws
                         | Some (Returns (c, g5)) \<Rightarrow>
                             Some (Returns (True,
                               g5\<lparr>discardPile := discardPile g5 @ [Some c],
                                  currentPlayerIndex := Idx 0, gameStarted := True\<rparr>))))))"

subsection \<open>The view of one player\<close>

datatype cardView = Shown card | Hidden

record slotView =
  slotCard :: cardView
  isKnown :: bool
  isOuter :: bool

record playerView =
  viewId :: string
  viewName :: string
  handSize :: nat
  viewHand :: "slotView list"
  viewScore :: "nat option"
  viewTotalScore :: nat

record gameView =
  viewGameId :: string
  viewPlayers :: "playerView list"
  currentPlayerId :: "string option"
  isMyTurn :: bool
  discardTop :: "card option"
  deckSize :: nat
  viewDrawnCard :: "card option"
  viewDrawnFromDiscard :: bool
  draw2Active :: bool
  draw2Remaining :: int
  viewGameStarted :: bool
  viewRoundEnded :: bool
  viewKnockerId :: "string option"
  viewFinalRoundActive :: bool

definition ownSlot :: "bool \<Rightarrow> player \<Rightarrow> nat \<Rightarrow> slotView" where
  "ownSlot ended p idx =
     (let outer = (idx = 0 \<or> int idx = int (length (hand p)) - 1)
      in \<lparr>slotCard = (if ended \<or> knownAt (knownCards p) idx \<or> outer
                       then Shown (hand p ! idx) else Hidden),
          isKnown = (ended \<or> knownAt (knownCards p) idx),
          isOuter = outer\<rparr>)"

definition otherSlot :: "bool \<Rightarrow> player \<Rightarrow> nat \<Rightarrow> slotView" where
  "otherSlot ended p idx =
     \<lparr>slotCard = (if ended then Shown (hand p ! idx) else Hidden),
      isKnown = ended, isOuter = False\<rparr>"

definition viewOfPlayer :: "bool \<Rightarrow> string \<Rightarrow> player \<Rightarrow> playerView" where
  "viewOfPlayer ended playerId p =
     \<lparr>viewId = pid p, viewName = pname p, handSize = length (hand p),
      viewHand = (if pid p = playerId
                  then map (ownSlot ended p) [0..<length (hand p)]
                  else map (otherSlot ended p) [0..<length (hand p)]),
      viewScore = (if ended then Some (score p) else None),
      viewTotalScore = totalScore p\<rparr>"

text \<open>\<open>discardTop\<close> is \<open>undefined\<close> for an empty pile; the view keeps it as no card.\<close>

definition getGameState :: "string \<Rightarrow> game \<Rightarrow> gameView" where
  "getGameState playerId g =
     \<lparr>viewGameId = gameId g,
      viewPlayers = map (viewOfPlayer (roundEnded g) playerId) (players g),
      currentPlayerId = map_option pid (getCurrentPlayer g),
      isMyTurn = (map_option pid (getCurrentPlayer g) = Some playerId),
      discardTop = (if discardPile g = [] then None else last (discardPile g)),
      deckSize = length (deck g),
      viewDrawnCard = (if map_option pid (getCurrentPlayer g) = Some playerId
                       then drawnCard g else None),
      viewDrawnFromDiscard = drawnFromDiscard g,
      draw2Active = draw2ChainActive g,
      draw2Remaining = draw2CardsRemaining g,
      viewGameStarted = gameStarted g,
      viewRoundEnded = roundEnded g,
      viewKnockerId = knockerId g,
      viewFinalRoundActive = finalRoundActive g\<rparr>"

subsection \<open>The methods as one transition function\<close>

datatype action =
    DrawFromDiscardPile
  | DrawFromDeck
  | ReplaceCardInHand int
  | DiscardDrawnCard
  | UsePeek int
  | UseSwap int string int
  | DeclineSwap
  | UseDraw2
  | HandleDraw2Card string "int option"
  | UseAddCard
  | Knock

fun act :: "action \<Rightarrow> game \<Rightarrow> (result \<times> game) outcome option" where
  "act DrawFromDiscardPile g = drawFromDiscardPile g"
| "act DrawFromDeck g = drawFromDeck g"
| "act (ReplaceCardInHand i) g = replaceCardInHand i g"
| "act DiscardDrawnCard g = discardDrawnCard g"
| "act (UsePeek i) g = usePeek i g"
| "act (UseSwap i opp j) g = useSwap i opp j g"
| "act DeclineSwap g = declineSwap g"
| "act UseDraw2 g = useDraw2 g"
| "act (HandleDraw2Card a i) g = handleDraw2Card a i g"
| "act UseAddCard g = useAddCard g"
| "act Knock g = knock g"

datatype operation = AddPlayer string string | RemovePlayer string | StartRound | Action action

text \<open>The state a public operation leaves, when it returns.\<close>

fun stateAfter :: "('a \<times> game) outcome option \<Rightarrow> game option" where
  "stateAfter (Some (Returns (r, g))) = Some g"
| "stateAfter x = None"

fun perform :: "operation \<Rightarrow> game \<Rightarrow> game option" where
  "perform (AddPlayer i n) g = Some (snd (addPlayer i n g))"
| "perform (RemovePlayer i) g = Some (snd (removePlayer i g))"
| "perform StartRound g = stateAfter (startRound g)"
| "perform (Action a) g = stateAfter (act a g)"

text \<open>A sequence of public operations, as long as each returns.\<close>

fun performAll :: "operation list \<Rightarrow> game \<Rightarrow> game option" where
  "performAll [] g = Some g"
| "performAll (x # xs) g = (case perform x g of None \<Rightarrow> None | Some g1 \<Rightarrow> performAll xs g1)"

section \<open>Concrete states\<close>

definition seat :: "string \<Rightarrow> card list \<Rightarrow> player" where
  "seat i h = \<lparr>pid = i, pname = i, hand = h, knownCards = replicate (length h) False,
                score = 0, totalScore = 0\<rparr>"

text \<open>Two players in a started game, every random value being 1.\<close>

definition table2 :: game where
  "table2 = (newGame ''G'' (\<lambda>_. 1))\<lparr>
     players := [seat ''a'' [Card Number (Some 1), Card Number (Some 2),
                             Card Number (Some 3), Card Number (Some 4)],
                 seat ''b'' [Card Number (Some 5), Card Number (Some 6),
                             Card Number (Some 7), Card Number (Some 8)]],
     gameStarted := True\<rparr>"

text \<open>A Draw-Two was drawn and the two other Draw-Twos are on top of the deck.\<close>

definition doubleDraw2 :: game where
  "doubleDraw2 = table2\<lparr>
     deck := [Some (Card Number (Some 9)), Some (Card Draw2 None), Some (Card Draw2 None)],
     discardPile := [Some (Card Number (Some 0))],
     drawnCard := Some (Card Draw2 None)\<rparr>"

text \<open>A chain that is still active with no card pending (as after \<open>useDraw2\<close> followed by
  \<open>discardDrawnCard\<close>, which ends the turn and leaves the chain flag), the deck down to one
  Draw-Two.\<close>

definition staleChain :: game where
  "staleChain = table2\<lparr>
     deck := [Some (Card Draw2 None)],
     discardPile := [Some (Card Number (Some 0))],
     draw2ChainActive := True, draw2CardsRemaining := 2\<rparr>"

text \<open>A Draw-Two was drawn as the last card: the deck and the discard pile are empty.\<close>

definition lastDraw2 :: game where
  "lastDraw2 = table2\<lparr>drawnCard := Some (Card Draw2 None)\<rparr>"

definition lastDraw2After :: game where
  "lastDraw2After = lastDraw2\<lparr>discardPile := [Some (Card Draw2 None)],
     currentPlayerIndex := Idx 1, drawnCard := None, draw2CardsRemaining := 2\<rparr>"

section \<open>Predicates and projections used in the statements\<close>

text \<open>The test of \<open>endTurn\<close> for the end of the round, on the state the turn ends in: the
  final round is active and the completed final turns, this one counted, reach the number of
  players minus one.\<close>

definition endsRound :: "game \<Rightarrow> bool" where
  "endsRound g = (finalRoundActive g
      \<and> int (playersCompletedFinalTurn g + 1) \<ge> int (length (players g)) - 1)"

definition handAndMask :: "nat \<Rightarrow> game \<Rightarrow> card list \<times> bool list" where
  "handAndMask pi g = (hand (players g ! pi), knownCards (players g ! pi))"

fun resultOf :: "('a \<times> game) outcome option \<Rightarrow> 'a option" where
  "resultOf (Some (Returns (r, g))) = Some r"
| "resultOf x = None"

section \<open>More concrete states\<close>

text \<open>A Swap card was drawn; both players know their first card, and the first card of
  \<open>b\<close> is a Peek card.\<close>

definition swapDrawn :: game where
  "swapDrawn = table2\<lparr>
     players := [(seat ''a'' [Card Number (Some 1), Card Number (Some 2),
                              Card Number (Some 3), Card Number (Some 4)])
                   \<lparr>knownCards := [True, True, False, False]\<rparr>,
                 (seat ''b'' [Card Peek None, Card Number (Some 6),
                              Card Number (Some 7), Card Number (Some 8)])
                   \<lparr>knownCards := [True, False, False, True]\<rparr>],
     deck := [Some (Card Number (Some 9))],
     discardPile := [Some (Card Number (Some 0))],
     drawnCard := Some (Card Swap None)\<rparr>"

text \<open>The state after \<open>a\<close> has swapped its first card with the first card of \<open>b\<close>.\<close>

definition swapDrawnAfter :: game where
  "swapDrawnAfter = swapDrawn\<lparr>
     players := [(seat ''a'' [Card Peek None, Card Number (Some 2),
                              Card Number (Some 3), Card Number (Some 4)])
                   \<lparr>knownCards := [False, True, False, False]\<rparr>,
                 (seat ''b'' [Card Number (Some 1), Card Number (Some 6),
                              Card Number (Some 7), Card Number (Some 8)])
                   \<lparr>knownCards := [False, False, False, True]\<rparr>],
     discardPile := [Some (Card Number (Some 0)), Some (Card Swap None)],
     currentPlayerIndex := Idx 1, drawnCard := None\<rparr>"

text \<open>The same draw in the last turn of the final round: \<open>b\<close> has knocked.\<close>

definition lastFinalSwap :: game where
  "lastFinalSwap = swapDrawn\<lparr>knockerId := Some ''b'', finalRoundActive := True\<rparr>"

text \<open>Three players have joined a new game whose random values are all 0.\<close>

definition lobby3 :: game where
  "lobby3 = (newGame ''G'' (\<lambda>_. 0))\<lparr>
     players := [newPlayer ''a'' ''A'', newPlayer ''b'' ''B'', newPlayer ''c'' ''C'']\<rparr>"

text \<open>Two states that a player \<open>playerId\<close> should not be able to tell apart: they agree on
  everything except the cards in the hands of players with another id (the hand sizes agree)
  and, unless \<open>playerId\<close> is the current player, the pending drawn card.\<close>

definition hiddenFrom :: "string \<Rightarrow> game \<Rightarrow> game \<Rightarrow> bool" where
  "hiddenFrom playerId g1 g2 =
     (g2 = g1\<lparr>players := players g2, drawnCard := drawnCard g2\<rparr>
      \<and> length (players g2) = length (players g1)
      \<and> (\<forall>q < length (players g1).
            if pid (players g1 ! q) = playerId then players g2 ! q = players g1 ! q
            else players g2 ! q = (players g1 ! q)\<lparr>hand := hand (players g2 ! q)\<rparr>
                 \<and> length (hand (players g2 ! q)) = length (hand (players g1 ! q)))
      \<and> (map_option pid (getCurrentPlayer g1) = Some playerId \<longrightarrow> drawnCard g2 = drawnCard g1))"

text \<open>The state \<open>swapDrawn\<close> with other cards in the hand of \<open>a\<close> and another drawn card.\<close>

definition swapDrawnOther :: game where
  "swapDrawnOther = swapDrawn\<lparr>
     players := [(seat ''a'' [Card Number (Some 9), Card AddCard None,
                              Card Number (Some 0), Card Number (Some 5)])
                   \<lparr>knownCards := [True, True, False, False]\<rparr>,
                 (seat ''b'' [Card Peek None, Card Number (Some 6),
                              Card Number (Some 7), Card Number (Some 8)])
                   \<lparr>knownCards := [True, False, False, True]\<rparr>],
     drawnCard := Some (Card Draw2 None)\<rparr>"

section \<open>Predicates for the end of the round\<close>

text \<open>No card can be drawn: the deck is empty and the discard pile has at most its top.\<close>

definition exhausted :: "game \<Rightarrow> bool" where
  "exhausted g = (deck g = [] \<and> length (discardPile g) \<le> 1)"

text \<open>The piles hold cards only.\<close>

definition nullFree :: "game \<Rightarrow> bool" where
  "nullFree g = (None \<notin> set (deck g) \<and> None \<notin> set (discardPile g))"

text \<open>A hand slot after \<open>endRound\<close>, against the slot before: a power card has become a known
  number card, or is still there with \<open>e\<close> (which will say that the deck was exhausted); a
  number card and its mask entry are as they were.\<close>

definition slotAfterRound :: "player \<Rightarrow> player \<Rightarrow> nat \<Rightarrow> bool \<Rightarrow> bool" where
  "slotAfterRound p p' i e =
     (if isPowerCard (hand p ! i)
      then (ctype (hand p' ! i) = Number \<and> knownAt (knownCards p') i)
           \<or> (hand p' ! i = hand p ! i
                \<and> knownAt (knownCards p') i = knownAt (knownCards p) i \<and> e)
      else hand p' ! i = hand p ! i \<and> knownAt (knownCards p') i = knownAt (knownCards p) i)"

text \<open>A player after \<open>endRound\<close>: same identity and hand size, every slot as above, the round
  score is the sum of the points of the final hand and was added to the total.\<close>

definition playerAfterRound :: "player \<Rightarrow> player \<Rightarrow> bool \<Rightarrow> bool" where
  "playerAfterRound p p' e =
     (pid p' = pid p \<and> pname p' = pname p \<and> length (hand p') = length (hand p)
      \<and> score p' = sum_list (map getPoints (hand p'))
      \<and> totalScore p' = totalScore p + score p'
      \<and> (\<forall>i < length (hand p). slotAfterRound p p' i e))"

text \<open>The first card of \<open>a\<close> is a Peek card, and a \<open>null\<close> entry lies on top of the deck,
  above a number card (a \<open>null\<close> that \<open>handleDraw2Card\<close> pushed on the discard pile comes
  into the deck with a reshuffle).\<close>

definition nullOnTop :: game where
  "nullOnTop = table2\<lparr>
     players := [seat ''a'' [Card Peek None, Card Number (Some 2),
                             Card Number (Some 3), Card Number (Some 4)],
                 seat ''b'' [Card Number (Some 5), Card Number (Some 6),
                             Card Number (Some 7), Card Number (Some 8)]],
     deck := [Some (Card Number (Some 5)), None],
     discardPile := [Some (Card Number (Some 0))]\<rparr>"

text \<open>The assignment of \<open>endRound\<close> to a slot, and states that agree except for the piles.\<close>

definition replaced :: "nat \<Rightarrow> nat \<Rightarrow> card \<Rightarrow> game \<Rightarrow> game" where
  "replaced pi i r g = updPlayer pi (\<lambda>p. p\<lparr>hand := (hand p)[i := r],
                           knownCards := knownAssign (knownCards p) i True\<rparr>) g"

definition noPiles :: "game \<Rightarrow> game" where
  "noPiles g = g\<lparr>deck := [], discardPile := [], randomUsed := 0\<rparr>"

definition samePiles :: "game \<Rightarrow> game \<Rightarrow> bool" where
  "samePiles g g' = (noPiles g' = noPiles g)"

section \<open>The states of a match\<close>

text \<open>The states of a match: a new game, and what any public operation that returns leaves.\<close>

inductive reachable :: "game \<Rightarrow> bool" where
  init: "reachable (newGame gid rs)"
| step: "reachable g \<Longrightarrow> perform x g = Some g' \<Longrightarrow> reachable g'"

text \<open>Three players join, the round starts, the first knocks, the second draws and discards,
  the third leaves.\<close>

definition knockAndLeave :: "operation list" where
  "knockAndLeave = [AddPlayer ''a'' ''A'', AddPlayer ''b'' ''B'', AddPlayer ''c'' ''C'',
     StartRound, Action Knock, Action DrawFromDeck, Action DiscardDrawnCard, RemovePlayer ''c'']"

text \<open>What holds of every state of a match: before the first round there is no card anywhere
  and no chain; the index is \<open>NaN\<close> only in a started game without players, and otherwise
  it is in range, or 0 when there is no player.\<close>

definition lobbyInv :: "game \<Rightarrow> bool" where
  "lobbyInv g =
     ((gameStarted g \<or> (deck g = [] \<and> discardPile g = [] \<and> drawnCard g = None
                          \<and> \<not> draw2ChainActive g))
      \<and> (case currentPlayerIndex g of
            NaN \<Rightarrow> players g = [] \<and> gameStarted g
          | Idx i \<Rightarrow> i < length (players g) \<or> (i = 0 \<and> players g = [])))"

text \<open>What an action may do to the turn: the game stays started or not, the number of players
  stays, and the index stays, or becomes \<open>NaN\<close> (it was, or there is no player), or becomes
  an index in range.\<close>

definition turnMoved :: "game \<Rightarrow> game \<Rightarrow> bool" where
  "turnMoved g g' =
     (gameStarted g' = gameStarted g \<and> length (players g') = length (players g)
      \<and> (currentPlayerIndex g' = currentPlayerIndex g
          \<or> currentPlayerIndex g' = NaN
             \<and> (currentPlayerIndex g = NaN \<or> length (players g) = 0)
          \<or> currentPlayerIndex g \<noteq> NaN
             \<and> (\<exists>j < length (players g). currentPlayerIndex g' = Idx j)))"

text \<open>The state without its players and piles: what \<open>endRound\<close> leaves alone, except
  \<open>roundEnded\<close>.\<close>

definition noHands :: "game \<Rightarrow> game" where
  "noHands g = (noPiles g)\<lparr>players := []\<rparr>"

section \<open>The cards in play\<close>

text \<open>The cards of a state, as a multiset of pile entries: the draw pile, the discard pile,
  the hands and the pending drawn card, if there is one. \<open>cardCount\<close> is
  \<open>|deck| + |discard| + \<Sigma>|hand_i|\<close>.\<close>

definition optCard :: "card option \<Rightarrow> card option multiset" where
  "optCard c = (case c of None \<Rightarrow> {#} | Some x \<Rightarrow> {#Some x#})"

definition handsOf :: "player list \<Rightarrow> card option multiset" where
  "handsOf ps = sum_list (map (\<lambda>p. mset (map Some (hand p))) ps)"

definition cardsInPlay :: "game \<Rightarrow> card option multiset" where
  "cardsInPlay g = mset (deck g) + mset (discardPile g) + handsOf (players g)
                   + optCard (drawnCard g)"

definition cardCount :: "game \<Rightarrow> nat" where
  "cardCount g = length (deck g) + length (discardPile g)
                 + sum_list (map (\<lambda>p. length (hand p)) (players g))"

text \<open>The states of a round: \<open>startRound\<close> has returned true, called with no card pending
  (it does not clear \<open>drawnCard\<close>); then actions have returned, and the round has not ended.
  Two calls are left out, because they drop or invent a pile entry: \<open>knock\<close> while a card
  is pending (it sets \<open>drawnCard\<close> to \<open>null\<close>), and \<open>handleDraw2Card('discard')\<close>
  with no card pending (it pushes \<open>null\<close> on the discard pile).\<close>

fun keepsCards :: "action \<Rightarrow> game \<Rightarrow> bool" where
  "keepsCards Knock g = (drawnCard g = None)"
| "keepsCards (HandleDraw2Card a i) g = (a \<noteq> ''discard'' \<or> drawnCard g \<noteq> None)"
| "keepsCards a g = True"

inductive inRound :: "game \<Rightarrow> bool" where
  start: "drawnCard g = None \<Longrightarrow> startRound g = Some (Returns (True, g')) \<Longrightarrow> inRound g'"
| step: "inRound g \<Longrightarrow> keepsCards a g \<Longrightarrow> act a g = Some (Returns (r, g')) \<Longrightarrow>
         \<not> roundEnded g' \<Longrightarrow> inRound g'"

text \<open>The state after \<open>startRound\<close> with three players and one \<open>drawFromDeck\<close>.\<close>

definition firstDraw :: game where
  "firstDraw = the (stateAfter (drawFromDeck (the (stateAfter (startRound lobby3)))))"

section \<open>Properties\<close>

lemmas drawDefs = drawCard_def reshuffle_def shuffleDeck_def Let_def

subsection \<open>Shuffling and drawing\<close>

lemma shuffleLoop_mset: "k \<le> length d - 1 \<Longrightarrow> mset (fst (shuffleLoop k d rs u)) = mset d"
proof (induction k arbitrary: d u)
  case 0
  then show ?case by simp
next
  case (Suc k)
  let ?j = "rs u mod (Suc k + 1)"
  let ?d = "d[Suc k := d ! ?j, ?j := d ! Suc k]"
  from Suc.prems have k: "Suc k < length d" by simp
  have "?j < Suc k + 1" by simp
  with k have j: "?j < length d" by linarith
  have "mset ?d = mset d" using k j by (simp add: mset_swap)
  moreover have "mset (fst (shuffleLoop k ?d rs (Suc u))) = mset ?d"
    using Suc.prems by (intro Suc.IH) simp
  ultimately show ?case by (simp add: Let_def)
qed

lemma shuffleDeck_frame:
  "shuffleDeck g = g\<lparr>deck := deck (shuffleDeck g), randomUsed := randomUsed (shuffleDeck g)\<rparr>"
  by (simp add: shuffleDeck_def split: prod.splits)

lemma shuffleDeck_mset: "mset (deck (shuffleDeck g)) = mset (deck g)"
  using shuffleLoop_mset[of "length (deck g) - 1" "deck g" "randomValues g" "randomUsed g"]
  by (cases "shuffleLoop (length (deck g) - 1) (deck g) (randomValues g) (randomUsed g)")
     (simp add: shuffleDeck_def)

lemma shuffleDeck_discardPile: "discardPile (shuffleDeck g) = discardPile g"
  by (simp add: shuffleDeck_def split: prod.splits)

lemma drawCard_frame:
  "drawCard g = (c, g1) \<Longrightarrow>
     g1 = g\<lparr>deck := deck g1, discardPile := discardPile g1, randomUsed := randomUsed g1\<rparr>"
  by (auto simp: drawCard_def reshuffle_def shuffleDeck_def Let_def split: if_splits prod.splits)

lemma drawCard_exhausted:
  "deck g = [] \<Longrightarrow> length (discardPile g) \<le> 1 \<Longrightarrow> drawCard g = (None, g)"
  by (simp add: drawCard_def reshuffle_def)

lemma butlast_last_mset: "xs \<noteq> [] \<Longrightarrow> mset (butlast xs) + {#last xs#} = mset xs"
  by (induction xs) auto

lemma drawCard_mset:
  assumes "drawCard g = (c, g1)" "deck g \<noteq> [] \<or> length (discardPile g) > 1"
  shows "mset (deck g1) + mset (discardPile g1) + {#c#} = mset (deck g) + mset (discardPile g)"
proof -
  let ?r = "reshuffle g"
  have r: "mset (deck ?r) + mset (discardPile ?r) = mset (deck g) + mset (discardPile g)"
  proof (cases "deck g = [] \<and> length (discardPile g) > 1")
    case True
    then have "discardPile g \<noteq> []" by auto
    then show ?thesis
      using True butlast_last_mset[of "discardPile g"]
      by (simp add: reshuffle_def shuffleDeck_mset shuffleDeck_discardPile)
  next
    case False
    then show ?thesis by (auto simp: reshuffle_def)
  qed
  have ne: "deck ?r \<noteq> []"
  proof (cases "deck g = []")
    case True
    with assms(2) have "butlast (discardPile g) \<noteq> []"
      by (cases "discardPile g" rule: rev_cases) auto
    then have "mset (deck ?r) \<noteq> {#}" using True assms(2)
      by (simp add: reshuffle_def shuffleDeck_mset)
    then show ?thesis by auto
  next
    case False
    then show ?thesis by (simp add: reshuffle_def)
  qed
  with assms(1) have "c = last (deck ?r)" "deck g1 = butlast (deck ?r)"
     "discardPile g1 = discardPile ?r"
    by (auto simp: drawCard_def Let_def)
  with butlast_last_mset[OF ne] r show ?thesis by (simp add: ac_simps)
qed

lemma drawCard_None_unchanged:
  assumes "drawCard g = (None, g1)" "None \<notin> set (deck g)" "None \<notin> set (discardPile g)"
  shows "g1 = g \<and> deck g = [] \<and> length (discardPile g) \<le> 1"
proof (cases "deck g \<noteq> [] \<or> length (discardPile g) > 1")
  case True
  have "None \<in># mset (deck g1) + mset (discardPile g1) + {#None#}" by simp
  then have "None \<in># mset (deck g) + mset (discardPile g)"
    unfolding drawCard_mset[OF assms(1) True] .
  with assms(2,3) show ?thesis by auto
next
  case False
  then show ?thesis using assms(1) by (simp add: drawCard_exhausted)
qed

subsection \<open>Draw-Two chains\<close>

text \<open>Claim C3. Every card drawn while a Draw-Two chain is active should, when it is itself a
  Draw-Two, be discarded at once and reset the count to 2, so that a chained Draw-Two never
  becomes the pending card. \<open>useDraw2\<close> tests the first card only: with two Draw-Twos on top
  of the deck the first is discarded and the second is stored as the pending card, the chain
  being active.\<close>

theorem useDraw2_second_draw2_pending:
  "useDraw2 doubleDraw2 =
     Some (Returns (Draw2Card (Some (Card Draw2 None)) True 2,
       doubleDraw2\<lparr>deck := [Some (Card Number (Some 9))],
         discardPile := [Some (Card Number (Some 0)), Some (Card Draw2 None),
                         Some (Card Draw2 None)],
         drawnCard := Some (Card Draw2 None),
         draw2ChainActive := True, draw2CardsRemaining := 2\<rparr>))"
  by (simp add: useDraw2_def doubleDraw2_def table2_def newGame_def notDrawn_def drawDefs)

text \<open>Claim C4. When no card can be drawn during a chain, the chain should be deactivated and
  the turn should end, also at the draw that follows a chained Draw-Two. That draw is not
  tested: here \<open>handleDraw2Card('discard')\<close> draws the Draw-Two, discards it, then draws
  \<open>null\<close>, and returns success with the chain active, no card pending and the turn not
  passed on.\<close>

theorem handleDraw2Card_null_after_chained_draw2:
  "handleDraw2Card ''discard'' None staleChain =
     Some (Returns (Draw2Card None True 2,
       staleChain\<lparr>deck := [Some (Card Number (Some 0))],
         discardPile := [Some (Card Draw2 None)],
         drawnCard := None, randomUsed := 1\<rparr>))"
  by (simp add: handleDraw2Card_def staleChain_def table2_def newGame_def drawDefs)

subsection \<open>The knocker\<close>

text \<open>Claim C8. After a knock the knocker should never be the current player again before the
  round ends. Three players join and the round starts; \<open>a\<close> knocks, \<open>b\<close> draws and
  discards, so that it is the turn of \<open>c\<close>, who then leaves: \<open>removePlayer\<close> resets the
  index to 0, the position of the knocker, in the final round that has not ended.\<close>

theorem removePlayer_turn_back_to_knocker:
  "map_option (\<lambda>g. (finalRoundActive g, roundEnded g, knockerId g,
                     map_option pid (getCurrentPlayer g)))
     (performAll [AddPlayer ''a'' ''A'', AddPlayer ''b'' ''B'', AddPlayer ''c'' ''C'',
                  StartRound, Action Knock, Action DrawFromDeck, Action DiscardDrawnCard,
                  RemovePlayer ''c'']
        (newGame ''G'' (\<lambda>_. 0)))
   = Some (True, False, Some ''a'', Some ''a'')"
  by code_simp

subsection \<open>Failed calls\<close>

lemma returning_eq:
  "returning r x = Some (Returns (r', g')) \<longleftrightarrow> r' = r \<and> x = Some (Returns g')"
  by (cases "(r, x)" rule: returning.cases) auto

lemma butlast_snoc_last: "xs \<noteq> [] \<Longrightarrow> last xs = y \<Longrightarrow> butlast xs @ [y] = xs"
  by auto

lemma drawFromDiscardPile_failure:
  "drawFromDiscardPile g = Some (Returns (Failure e, g')) \<Longrightarrow> g' = g"
  by (auto simp: drawFromDiscardPile_def Let_def butlast_snoc_last
           split: if_splits option.splits)

lemma drawFromDeck_failure:
  "drawFromDeck g = Some (Returns (Failure e, g')) \<Longrightarrow> None \<notin> set (deck g)
     \<Longrightarrow> None \<notin> set (discardPile g) \<Longrightarrow> g' = g"
  by (auto simp: drawFromDeck_def split: if_splits option.splits prod.splits
           dest: drawCard_None_unchanged)

lemma replaceCardInHand_failure:
  "replaceCardInHand i g = Some (Returns (Failure e, g')) \<Longrightarrow> g' = g"
  by (auto simp: replaceCardInHand_def Let_def returning_eq split: if_splits option.splits)

lemma discardDrawnCard_failure:
  "discardDrawnCard g = Some (Returns (Failure e, g')) \<Longrightarrow> g' = g"
  by (auto simp: discardDrawnCard_def Let_def returning_eq split: if_splits)

lemma usePeek_failure:
  "usePeek i g = Some (Returns (Failure e, g')) \<Longrightarrow> g' = g"
  by (auto simp: usePeek_def Let_def returning_eq split: if_splits option.splits)

lemma useSwap_failure:
  "useSwap i opp j g = Some (Returns (Failure e, g')) \<Longrightarrow> g' = g"
  by (auto simp: useSwap_def Let_def returning_eq split: if_splits option.splits)

lemma declineSwap_failure:
  "declineSwap g = Some (Returns (Failure e, g')) \<Longrightarrow> g' = g"
  by (auto simp: declineSwap_def Let_def returning_eq split: if_splits)

lemma useDraw2_failure:
  "useDraw2 g = Some (Returns (Failure e, g')) \<Longrightarrow> e \<noteq> ''Deck empty'' \<Longrightarrow> g' = g"
  by (auto simp: useDraw2_def Let_def returning_eq split: if_splits option.splits prod.splits)

lemma handleDraw2Card_failure:
  "handleDraw2Card a i g = Some (Returns (Failure e, g')) \<Longrightarrow> e \<noteq> ''Deck empty'' \<Longrightarrow> g' = g"
  by (auto simp: handleDraw2Card_def Let_def returning_eq
           split: if_splits option.splits prod.splits outcome.splits
           dest: replaceCardInHand_failure)

lemma useAddCard_failure:
  "useAddCard g = Some (Returns (Failure e, g')) \<Longrightarrow> g' = g"
  by (auto simp: useAddCard_def Let_def returning_eq
           split: if_splits option.splits prod.splits outcome.splits)

lemma knock_failure:
  "knock g = Some (Returns (Failure e, g')) \<Longrightarrow> g' = g"
  by (auto simp: knock_def Let_def returning_eq split: if_splits option.splits)

text \<open>Every failure but \<open>Deck empty\<close> is returned before anything is changed. For the
  failure \<open>Deck is empty\<close> of \<open>drawFromDeck\<close> the piles are taken to hold cards only: a
  \<open>null\<close> entry that it pops is reported as an empty deck and is gone from the deck.\<close>

lemma other_failures_keep_state:
  assumes "act a g = Some (Returns (Failure e, g'))" and "e \<noteq> ''Deck empty''"
    and "a = DrawFromDeck \<longrightarrow> nullFree g"
  shows "g' = g"
  using assms
  by (cases a)
     (auto simp: nullFree_def
        dest: drawFromDiscardPile_failure drawFromDeck_failure replaceCardInHand_failure
        discardDrawnCard_failure usePeek_failure useSwap_failure declineSwap_failure
        useDraw2_failure handleDraw2Card_failure useAddCard_failure knock_failure)

text \<open>Claim C2. A call that returns a failure should leave the whole state as it was. The
  failure \<open>Deck empty\<close> of \<open>useDraw2\<close> is returned after the mutation: here, with nothing
  left to draw, the Draw-Two has been discarded, no card is pending any more and the turn
  has passed to \<open>b\<close>.\<close>

theorem useDraw2_failure_changes_state:
  "useDraw2 lastDraw2 = Some (Returns (Failure ''Deck empty'', lastDraw2After))
   \<and> lastDraw2After \<noteq> lastDraw2"
proof -
  have "useDraw2 lastDraw2 = Some (Returns (Failure ''Deck empty'', lastDraw2After))"
    by (simp add: useDraw2_def lastDraw2_def lastDraw2After_def table2_def newGame_def
          notDrawn_def drawDefs endTurn_def advanceTurn.simps)
  moreover have "drawnCard lastDraw2After \<noteq> drawnCard lastDraw2"
    by (simp add: lastDraw2_def lastDraw2After_def)
  ultimately show ?thesis by auto
qed

subsection \<open>Ending a turn\<close>

lemma advanceTurn_result:
  assumes "advanceTurn g = Some y"
  shows "case y of Throws \<Rightarrow> True
         | Returns g' \<Rightarrow> g' = g\<lparr>currentPlayerIndex := currentPlayerIndex g'\<rparr>
             \<and> (case currentPlayerIndex g of
                   NaN \<Rightarrow> currentPlayerIndex g' = NaN
                 | Idx i \<Rightarrow> if players g = [] then currentPlayerIndex g' = NaN
                            else \<exists>j < length (players g). currentPlayerIndex g' = Idx j)"
proof -
  let ?P = "\<lambda>(g::game) y. case y of Throws \<Rightarrow> True
         | Returns g' \<Rightarrow> g' = g\<lparr>currentPlayerIndex := currentPlayerIndex g'\<rparr>
             \<and> (case currentPlayerIndex g of
                   NaN \<Rightarrow> currentPlayerIndex g' = NaN
                 | Idx i \<Rightarrow> if players g = [] then currentPlayerIndex g' = NaN
                            else \<exists>j < length (players g). currentPlayerIndex g' = Idx j)"
  show ?thesis
  proof (rule advanceTurn.raw_induct[where P = ?P, OF _ assms])
    fix adv :: "game \<Rightarrow> game outcome option" and g :: game and y
    let ?g1 = "g\<lparr>currentPlayerIndex := nextIndex (currentPlayerIndex g) (length (players g))\<rparr>"
    assume IH: "\<And>x y. adv x = Some y \<Longrightarrow> ?P x y"
      and step: "(let g1 = ?g1
            in if finalRoundActive g1
               then (case getCurrentPlayer g1 of
                       None \<Rightarrow> Some Throws
                     | Some p \<Rightarrow> if Some (pid p) = knockerId g1 then adv g1
                                 else Some (Returns g1))
               else Some (Returns g1)) = Some y"
    show "?P g y"
    proof (cases "finalRoundActive g \<and> (\<exists>p. getCurrentPlayer ?g1 = Some p \<and> Some (pid p) = knockerId g)")
      case True
      with step have "adv ?g1 = Some y" by (auto simp: Let_def)
      from IH[OF this] show ?thesis
        by (cases "currentPlayerIndex g") (auto split: outcome.splits jsIndex.splits if_splits)
    next
      case False
      with step have "y = Throws \<or> y = Returns ?g1"
        by (auto simp: Let_def split: if_splits option.splits)
      then show ?thesis
        by (cases "currentPlayerIndex g") (auto split: outcome.splits)
    qed
  qed
qed

lemma advanceTurn_frame:
  "advanceTurn g = Some (Returns g') \<Longrightarrow> g' = g\<lparr>currentPlayerIndex := currentPlayerIndex g'\<rparr>"
  by (drule advanceTurn_result) simp

lemma endTurn_frame:
  assumes "endTurn g = Some (Returns g')" "\<not> endsRound g"
  shows "g' = g\<lparr>drawnCard := None, drawnFromDiscard := False,
                 playersCompletedFinalTurn := playersCompletedFinalTurn g',
                 currentPlayerIndex := currentPlayerIndex g'\<rparr>"
proof (cases "finalRoundActive g")
  case True
  with assms have "advanceTurn (g\<lparr>drawnCard := None, drawnFromDiscard := False,
       playersCompletedFinalTurn := playersCompletedFinalTurn g + 1\<rparr>) = Some (Returns g')"
    by (auto simp: endTurn_def endsRound_def Let_def split: if_splits)
  from advanceTurn_frame[OF this] show ?thesis
    by (cases g, cases g') simp
next
  case False
  with assms have "advanceTurn (g\<lparr>drawnCard := None, drawnFromDiscard := False\<rparr>)
       = Some (Returns g')"
    by (auto simp: endTurn_def Let_def)
  from advanceTurn_frame[OF this] show ?thesis
    by (cases g, cases g') simp
qed

subsection \<open>Swap\<close>

lemma findPlayer_Some: "findPlayer x ps = Some i \<Longrightarrow> i < length ps \<and> pid (ps ! i) = x"
  by (induction ps arbitrary: i) (auto split: if_splits)

lemma knownAt_knownAssign:
  "knownAt (knownAssign ks i v) k = (if k = i then v else knownAt ks k)"
  by (auto simp: knownAt_def knownAssign_def nth_append nth_list_update)

lemma endTurn_players:
  "endTurn g = Some (Returns g') \<Longrightarrow> \<not> endsRound g \<Longrightarrow> players g' = players g"
  using arg_cong[where f = players, OF endTurn_frame[of g g']] by simp

lemma updPlayer_fields:
  "players (updPlayer i f g) = (players g)[i := f (players g ! i)]"
  "deck (updPlayer i f g) = deck g"
  "discardPile (updPlayer i f g) = discardPile g"
  "drawnCard (updPlayer i f g) = drawnCard g"
  "currentPlayerIndex (updPlayer i f g) = currentPlayerIndex g"
  "finalRoundActive (updPlayer i f g) = finalRoundActive g"
  "playersCompletedFinalTurn (updPlayer i f g) = playersCompletedFinalTurn g"
  "roundEnded (updPlayer i f g) = roundEnded g"
  "gameStarted (updPlayer i f g) = gameStarted g"
  "draw2ChainActive (updPlayer i f g) = draw2ChainActive g"
  "knockerId (updPlayer i f g) = knockerId g"
  by (simp_all add: updPlayer_def)

lemma useSwap_success:
  assumes "useSwap i opp j g = Some (Returns (r, g'))" and "success r"
  shows "\<exists>ci oi. currentSlot g = Some ci \<and> findPlayer opp (players g) = Some oi
     \<and> pid (players g ! oi) \<noteq> pid (players g ! ci)
     \<and> 0 \<le> i \<and> nat i < length (hand (players g ! ci))
     \<and> 0 \<le> j \<and> nat j < length (hand (players g ! oi))
     \<and> endTurn ((updPlayer oi (\<lambda>p. p\<lparr>knownCards := knownAssign (knownCards p) (nat j) False\<rparr>)
            (updPlayer ci (\<lambda>p. p\<lparr>knownCards := knownAssign (knownCards p) (nat i) False\<rparr>)
            (updPlayer oi (\<lambda>p. p\<lparr>hand := (hand p)[nat j := hand (players g ! ci) ! nat i]\<rparr>)
            (updPlayer ci (\<lambda>p. p\<lparr>hand := (hand p)[nat i := hand (players g ! oi) ! nat j]\<rparr>) g))))
           \<lparr>discardPile := discardPile g @ [drawnCard g],
             drawnCard := None, drawnFromDiscard := False\<rparr>) = Some (Returns g')"
proof -
  from assms have nd: "\<not> notDrawn Swap g"
    by (auto simp: useSwap_def)
  with assms obtain oi where oi: "findPlayer opp (players g) = Some oi"
    by (cases "findPlayer opp (players g)") (auto simp: useSwap_def)
  with nd assms obtain ci where ci: "currentSlot g = Some ci"
    by (cases "currentSlot g") (auto simp: useSwap_def)
  from nd oi ci assms have ne: "pid (players g ! oi) \<noteq> pid (players g ! ci)"
    by (auto simp: useSwap_def)
  from nd oi ci ne assms have i: "\<not> (i < 0 \<or> i \<ge> int (length (hand (players g ! ci))))"
    by (auto simp: useSwap_def)
  from nd oi ci ne i assms have j: "\<not> (j < 0 \<or> j \<ge> int (length (hand (players g ! oi))))"
    by (auto simp: useSwap_def)
  from nd oi ci ne i j assms(1) show ?thesis
    by (auto simp add: useSwap_def Let_def returning_eq updPlayer_fields)
qed

subsection \<open>Starting a round\<close>

lemma drawCard_players: "drawCard g = (c, g1) \<Longrightarrow> players g1 = players g"
  using arg_cong[where f = players, OF drawCard_frame[of g c g1]] by simp

lemma drawCard_no_reshuffle:
  assumes "drawCard g = (c, g1)" "deck g \<noteq> [] \<or> length (discardPile g) \<le> 1"
  shows "discardPile g1 = discardPile g \<and> randomUsed g1 = randomUsed g
         \<and> deck g1 = butlast (deck g)
         \<and> c = (if deck g = [] then None else last (deck g))"
  using assms by (auto simp: drawCard_def reshuffle_def Let_def split: if_splits)

lemma dealCards_result:
  "dealCards n pi g = Some g' \<Longrightarrow> pi < length (players g) \<Longrightarrow>
     length (players g') = length (players g)
     \<and> length (hand (players g' ! pi)) = length (hand (players g ! pi)) + n
     \<and> knownCards (players g' ! pi) = knownCards (players g ! pi) @ replicate n False
     \<and> (\<forall>q < length (players g). q \<noteq> pi \<longrightarrow> players g' ! q = players g ! q)
     \<and> (discardPile g = [] \<longrightarrow> discardPile g' = [])"
proof (induction n arbitrary: g)
  case 0
  then show ?case by simp
next
  case (Suc n)
  let ?f = "\<lambda>c p. p\<lparr>hand := hand p @ [c], knownCards := knownCards p @ [False]\<rparr>"
  from Suc.prems(1) obtain c g1 where d: "drawCard g = (Some c, g1)"
    and r: "dealCards n pi (updPlayer pi (?f c) g1) = Some g'"
    by (auto split: prod.splits option.splits)
  have pl: "players g1 = players g" by (rule drawCard_players[OF d])
  have dp: "discardPile g = [] \<longrightarrow> discardPile g1 = []"
    using drawCard_no_reshuffle[OF d] by auto
  from Suc.IH[OF r] Suc.prems(2) pl dp show ?case
    by (simp add: updPlayer_fields replicate_app_Cons_same)
qed

lemma dealPlayer_result:
  assumes "dealPlayer pi g = Some g'" "pi < length (players g)"
  shows "length (players g') = length (players g)
     \<and> length (hand (players g' ! pi)) = 4
     \<and> knownCards (players g' ! pi) = replicate 4 False
     \<and> (\<forall>q < length (players g). q \<noteq> pi \<longrightarrow> players g' ! q = players g ! q)
     \<and> (discardPile g = [] \<longrightarrow> discardPile g' = [])"
  using dealCards_result[of 4 pi "updPlayer pi (\<lambda>p. p\<lparr>hand := [], knownCards := []\<rparr>) g" g'] assms
  by (simp add: dealPlayer_def updPlayer_fields)

lemma dealAll_result:
  "dealAll pis g = Some g' \<Longrightarrow> \<forall>pi \<in> set pis. pi < length (players g) \<Longrightarrow>
     length (players g') = length (players g)
     \<and> (\<forall>q \<in> set pis. length (hand (players g' ! q)) = 4
                       \<and> knownCards (players g' ! q) = replicate 4 False)
     \<and> (\<forall>q < length (players g). q \<notin> set pis \<longrightarrow> players g' ! q = players g ! q)
     \<and> (discardPile g = [] \<longrightarrow> discardPile g' = [])"
proof (induction pis arbitrary: g)
  case Nil
  then show ?case by simp
next
  case (Cons pi pis)
  from Cons.prems(1) obtain g1 where d: "dealPlayer pi g = Some g1" and r: "dealAll pis g1 = Some g'"
    by (auto split: option.splits)
  from Cons.prems(2) have pi: "pi < length (players g)" by simp
  note 1 = dealPlayer_result[OF d pi]
  from 1 Cons.prems(2) have "\<forall>q \<in> set pis. q < length (players g1)" by simp
  note 2 = Cons.IH[OF r this]
  show ?case
  proof (intro conjI ballI allI impI)
    show "length (players g') = length (players g)" using 1 2 by simp
  next
    fix q assume q: "q \<in> set (pi # pis)"
    show "length (hand (players g' ! q)) = 4"
      using 1 2 q pi by (cases "q \<in> set pis") auto
    show "knownCards (players g' ! q) = replicate 4 False"
      using 1 2 q pi by (cases "q \<in> set pis") auto
  next
    fix q assume "q < length (players g)" "q \<notin> set (pi # pis)"
    then show "players g' ! q = players g ! q" using 1 2 by auto
  next
    assume "discardPile g = []"
    then show "discardPile g' = []" using 1 2 by simp
  qed
qed

lemma shuffleDeck_nonempty: "deck g \<noteq> [] \<Longrightarrow> deck (shuffleDeck g) \<noteq> []"
  using shuffleDeck_mset[of g] by (metis mset_zero_iff)

lemma firstDiscardLoop_result:
  assumes "firstDiscardLoop fd g = Some y"
  shows "case y of Throws \<Rightarrow> True
         | Returns (c, g') \<Rightarrow> \<not> isPowerCard c
             \<and> g' = g\<lparr>deck := deck g', randomUsed := randomUsed g'\<rparr>
             \<and> mset (deck g') + {#Some c#} = mset (deck g) + {#fd#}"
proof -
  let ?P = "\<lambda>fd (g::game) y. case y of Throws \<Rightarrow> True
         | Returns (c, g') \<Rightarrow> \<not> isPowerCard c
             \<and> g' = g\<lparr>deck := deck g', randomUsed := randomUsed g'\<rparr>
             \<and> mset (deck g') + {#Some c#} = mset (deck g) + {#fd#}"
  show ?thesis
  proof (rule firstDiscardLoop.raw_induct[where P = ?P, OF _ assms])
    fix loop :: "card option \<Rightarrow> game \<Rightarrow> (card \<times> game) outcome option"
      and fd and g :: game and y
    assume IH: "\<And>fd g y. loop fd g = Some y \<Longrightarrow> ?P fd g y"
      and step: "(case fd of None \<Rightarrow> Some Throws
           | Some c \<Rightarrow>
               if isPowerCard c
               then (case drawCard (shuffleDeck (g\<lparr>deck := Some c # deck g\<rparr>)) of
                       (d, g1) \<Rightarrow> loop d g1)
               else Some (Returns (c, g))) = Some y"
    show "?P fd g y"
    proof (cases fd)
      case None
      with step show ?thesis by auto
    next
      case (Some c)
      show ?thesis
      proof (cases "isPowerCard c")
        case False
        with step Some show ?thesis by auto
      next
        case True
        let ?s = "shuffleDeck (g\<lparr>deck := Some c # deck g\<rparr>)"
        obtain d g1 where dr: "drawCard ?s = (d, g1)" by (cases "drawCard ?s")
        with step Some True have l: "loop d g1 = Some y" by simp
        have ne: "deck ?s \<noteq> []" by (rule shuffleDeck_nonempty) simp
        have sf: "?s = g\<lparr>deck := deck ?s, randomUsed := randomUsed ?s\<rparr>"
          using shuffleDeck_frame[of "g\<lparr>deck := Some c # deck g\<rparr>"] by simp
        from drawCard_no_reshuffle[OF dr] ne
        have g1: "discardPile g1 = discardPile ?s" "randomUsed g1 = randomUsed ?s"
          "deck g1 = butlast (deck ?s)" "d = last (deck ?s)" by auto
        have fr: "g1 = g\<lparr>deck := deck g1, randomUsed := randomUsed g1\<rparr>"
          using drawCard_frame[OF dr] g1
          by (subst (asm) sf) (simp add: shuffleDeck_discardPile)
        have ms: "mset (deck g1) + {#d#} = mset (deck g) + {#fd#}"
          using butlast_last_mset[OF ne] g1 Some shuffleDeck_mset[of "g\<lparr>deck := Some c # deck g\<rparr>"]
          by simp
        from IH[OF l] show ?thesis
        proof (cases y)
          case Throws
          then show ?thesis by simp
        next
          case (Returns cg)
          obtain c' g' where cg: "cg = (c', g')" by (cases cg)
          from IH[OF l] Returns cg have
            a: "\<not> isPowerCard c'" and b: "g' = g1\<lparr>deck := deck g', randomUsed := randomUsed g'\<rparr>"
            and m: "mset (deck g') + {#Some c'#} = mset (deck g1) + {#d#}" by auto
          have "g' = g\<lparr>deck := deck g', randomUsed := randomUsed g'\<rparr>"
            by (subst b, subst fr) simp
          with a m ms Returns cg show ?thesis by simp
        qed
      qed
    qed
  qed
qed


lemma resultOf_Some: "resultOf x = Some r \<Longrightarrow> x = Some (Returns (r, the (stateAfter x)))"
  by (cases x rule: resultOf.cases) auto

text \<open>Claim C6. \<open>startRound\<close> returns false, changing nothing, with fewer than two players.
  When it returns true, every player holds exactly four cards with every known-mask entry
  false, the discard pile holds exactly one card, a number card, and \<open>currentPlayerIndex\<close>
  is 0.\<close>

theorem startRound_deal:
  "(length (players g) < 2 \<longrightarrow> startRound g = Some (Returns (False, g)))
   \<and> (startRound g = Some (Returns (True, g')) \<longrightarrow>
        2 \<le> length (players g')
        \<and> (\<forall>p \<in> set (players g'). length (hand p) = 4 \<and> knownCards p = replicate 4 False)
        \<and> (\<exists>c. discardPile g' = [Some c] \<and> ctype c = Number)
        \<and> currentPlayerIndex g' = Idx 0)"
proof (intro conjI impI)
  assume "length (players g) < 2"
  then show "startRound g = Some (Returns (False, g))" by (simp add: startRound_def)
next
  assume sr: "startRound g = Some (Returns (True, g'))"
  let ?g2 = "(initializeDeck g)\<lparr>discardPile := [], roundEnded := False, knockerId := None,
                         finalRoundActive := False, playersCompletedFinalTurn := 0\<rparr>"
  have p2: "players ?g2 = players g"
    using arg_cong[where f = players, OF shuffleDeck_frame[of "g\<lparr>deck := map Some freshDeck\<rparr>"]]
    by (simp add: initializeDeck_def)
  from sr have n: "2 \<le> length (players g)"
    by (auto simp: startRound_def split: if_splits)
  from sr n obtain g3 d g4 c g5 where
    da: "dealAll [0..<length (players ?g2)] ?g2 = Some g3"
    and dr: "drawCard g3 = (d, g4)"
    and fl: "firstDiscardLoop d g4 = Some (Returns (c, g5))"
    and g': "g' = g5\<lparr>discardPile := discardPile g5 @ [Some c],
                      currentPlayerIndex := Idx 0, gameStarted := True\<rparr>"
    by (auto simp: startRound_def Let_def split: if_splits option.splits prod.splits outcome.splits)
  from dealAll_result[OF da] have
    l3: "length (players g3) = length (players g)"
    and h3: "\<forall>q < length (players g3). length (hand (players g3 ! q)) = 4
                       \<and> knownCards (players g3 ! q) = replicate 4 False"
    and d3: "discardPile g3 = []"
    by (simp_all add: p2)
  from drawCard_no_reshuffle[OF dr] d3 have d4: "discardPile g4 = []" by simp
  have p4: "players g4 = players g3" by (rule drawCard_players[OF dr])
  from firstDiscardLoop_result[OF fl] have np: "\<not> isPowerCard c"
    and fr: "g5 = g4\<lparr>deck := deck g5, randomUsed := randomUsed g5\<rparr>" by auto
  have p5: "players g5 = players g4" and d5: "discardPile g5 = discardPile g4"
    using arg_cong[where f = players, OF fr] arg_cong[where f = discardPile, OF fr] by simp_all
  have pl: "players g' = players g3" using g' p5 p4 by simp
  show "2 \<le> length (players g')" using pl l3 n by simp
  show "\<forall>p \<in> set (players g'). length (hand p) = 4 \<and> knownCards p = replicate 4 False"
    using h3 unfolding pl by (auto simp: in_set_conv_nth)
  show "\<exists>c. discardPile g' = [Some c] \<and> ctype c = Number"
    using g' d5 d4 np by (simp add: isPowerCard_def)
  show "currentPlayerIndex g' = Idx 0" using g' by simp
qed

theorem startRound_deal_witness:
  "length (players (newGame ''G'' (\<lambda>_. 0))) < 2
   \<and> startRound (newGame ''G'' (\<lambda>_. 0)) = Some (Returns (False, newGame ''G'' (\<lambda>_. 0)))
   \<and> startRound lobby3 = Some (Returns (True, the (stateAfter (startRound lobby3))))
   \<and> length (players (the (stateAfter (startRound lobby3)))) = 3
   \<and> list_all (\<lambda>p. length (hand p) = 4 \<and> knownCards p = replicate 4 False)
        (players (the (stateAfter (startRound lobby3))))
   \<and> (\<exists>c. discardPile (the (stateAfter (startRound lobby3))) = [Some c] \<and> ctype c = Number)
   \<and> currentPlayerIndex (the (stateAfter (startRound lobby3))) = Idx 0"
proof -
  have a: "length (players (newGame ''G'' (\<lambda>_. 0))) < 2" by (simp add: newGame_def)
  have "resultOf (startRound lobby3) = Some True" by code_simp
  then have b: "startRound lobby3 = Some (Returns (True, the (stateAfter (startRound lobby3))))"
    by (rule resultOf_Some)
  have c: "length (players (the (stateAfter (startRound lobby3)))) = 3" by code_simp
  from startRound_deal[of "newGame ''G'' (\<lambda>_. 0)"] a
       startRound_deal[of lobby3 "the (stateAfter (startRound lobby3))"] b c
  show ?thesis unfolding list_all_iff by blast
qed

subsection \<open>The view of one player\<close>

lemma viewOfPlayer_hidden:
  assumes "pid p1 \<noteq> playerId" "p2 = p1\<lparr>hand := hand p2\<rparr>" "length (hand p2) = length (hand p1)"
  shows "viewOfPlayer False playerId p2 = viewOfPlayer False playerId p1"
proof -
  have "pid p2 = pid p1" "pname p2 = pname p1" "totalScore p2 = totalScore p1"
    using arg_cong[where f = pid, OF assms(2)] arg_cong[where f = pname, OF assms(2)]
          arg_cong[where f = totalScore, OF assms(2)] by simp_all
  with assms(1,3) show ?thesis by (simp add: viewOfPlayer_def otherSlot_def)
qed

text \<open>Claim C7. While the round has not ended, the view of a player shows no card of another
  player's hand and shows the pending drawn card to the current player only: two states that
  differ only in those cards give that player the same view.\<close>

theorem getGameState_hides:
  assumes "hiddenFrom playerId g1 g2" and "\<not> roundEnded g1"
  shows "getGameState playerId g1 = getGameState playerId g2"
proof -
  from assms(1) have fr: "g2 = g1\<lparr>players := players g2, drawnCard := drawnCard g2\<rparr>"
    and len: "length (players g2) = length (players g1)"
    and pl: "\<And>q. q < length (players g1) \<Longrightarrow>
            (if pid (players g1 ! q) = playerId then players g2 ! q = players g1 ! q
             else players g2 ! q = (players g1 ! q)\<lparr>hand := hand (players g2 ! q)\<rparr>
                 \<and> length (hand (players g2 ! q)) = length (hand (players g1 ! q)))"
    and dc: "map_option pid (getCurrentPlayer g1) = Some playerId \<Longrightarrow> drawnCard g2 = drawnCard g1"
    by (auto simp: hiddenFrom_def)
  have fields: "gameId g2 = gameId g1" "deck g2 = deck g1" "discardPile g2 = discardPile g1"
    "currentPlayerIndex g2 = currentPlayerIndex g1" "drawnFromDiscard g2 = drawnFromDiscard g1"
    "gameStarted g2 = gameStarted g1" "roundEnded g2 = roundEnded g1" "knockerId g2 = knockerId g1"
    "finalRoundActive g2 = finalRoundActive g1" "draw2ChainActive g2 = draw2ChainActive g1"
    "draw2CardsRemaining g2 = draw2CardsRemaining g1"
    by (subst fr, simp)+
  have pidq: "pid (players g2 ! q) = pid (players g1 ! q)" if "q < length (players g1)" for q
  proof (cases "pid (players g1 ! q) = playerId")
    case True
    with pl[OF that] show ?thesis by simp
  next
    case False
    with pl[OF that] have "players g2 ! q = (players g1 ! q)\<lparr>hand := hand (players g2 ! q)\<rparr>" by simp
    from arg_cong[where f = pid, OF this] show ?thesis by simp
  qed
  have cur: "map_option pid (getCurrentPlayer g2) = map_option pid (getCurrentPlayer g1)"
    using pidq len
    by (auto simp: getCurrentPlayer_def currentSlot_def fields split: jsIndex.splits)
  have views: "map (viewOfPlayer False playerId) (players g2)
             = map (viewOfPlayer False playerId) (players g1)"
  proof (rule nth_equalityI)
    show "length (map (viewOfPlayer False playerId) (players g2))
        = length (map (viewOfPlayer False playerId) (players g1))" using len by simp
  next
    fix q assume "q < length (map (viewOfPlayer False playerId) (players g2))"
    then have q: "q < length (players g1)" using len by simp
    show "map (viewOfPlayer False playerId) (players g2) ! q
        = map (viewOfPlayer False playerId) (players g1) ! q"
    proof (cases "pid (players g1 ! q) = playerId")
      case True
      with pl[OF q] q len show ?thesis by simp
    next
      case False
      with pl[OF q] have "players g2 ! q = (players g1 ! q)\<lparr>hand := hand (players g2 ! q)\<rparr>"
        "length (hand (players g2 ! q)) = length (hand (players g1 ! q))" by simp_all
      from viewOfPlayer_hidden[OF False this] q len show ?thesis by simp
    qed
  qed
  have drawn: "(if map_option pid (getCurrentPlayer g2) = Some playerId then drawnCard g2 else None)
             = (if map_option pid (getCurrentPlayer g1) = Some playerId then drawnCard g1 else None)"
    using cur dc by auto
  show ?thesis
    using assms(2) views drawn cur
    by (simp add: getGameState_def fields)
qed

theorem getGameState_hides_witness:
  "hiddenFrom ''b'' swapDrawn swapDrawnOther \<and> \<not> roundEnded swapDrawn
   \<and> hand (players swapDrawnOther ! 0) \<noteq> hand (players swapDrawn ! 0)
   \<and> drawnCard swapDrawnOther \<noteq> drawnCard swapDrawn
   \<and> getGameState ''b'' swapDrawn = getGameState ''b'' swapDrawnOther"
proof -
  have a: "hiddenFrom ''b'' swapDrawn swapDrawnOther"
    by (simp add: hiddenFrom_def swapDrawnOther_def swapDrawn_def table2_def newGame_def seat_def
          getCurrentPlayer_def currentSlot_def less_Suc_eq)
  have b: "\<not> roundEnded swapDrawn" by (simp add: swapDrawn_def table2_def newGame_def)
  have c: "hand (players swapDrawnOther ! 0) \<noteq> hand (players swapDrawn ! 0)"
    "drawnCard swapDrawnOther \<noteq> drawnCard swapDrawn"
    by (simp_all add: swapDrawnOther_def swapDrawn_def table2_def seat_def)
  from getGameState_hides[OF a b] a b c show ?thesis by blast
qed

subsection \<open>The end of the round\<close>

lemma drawCard_nullFree:
  assumes "drawCard g = (c, g1)" "nullFree g"
  shows "nullFree g1"
proof (cases "deck g \<noteq> [] \<or> length (discardPile g) > 1")
  case True
  from drawCard_mset[OF assms(1) True]
  have "set_mset (mset (deck g1) + mset (discardPile g1) + {#c#})
      = set_mset (mset (deck g) + mset (discardPile g))" by simp
  then have "set (deck g1) \<union> set (discardPile g1) \<subseteq> set (deck g) \<union> set (discardPile g)"
    by auto
  with assms(2) show ?thesis by (auto simp: nullFree_def)
next
  case False
  then have "drawCard g = (None, g)" by (simp add: drawCard_exhausted)
  with assms show ?thesis by simp
qed

lemma drawCard_exhausted_iff:
  "exhausted g \<Longrightarrow> drawCard g = (None, g)"
  by (simp add: exhausted_def drawCard_exhausted)

lemma drawCard_None_exhausted:
  "drawCard g = (None, g1) \<Longrightarrow> nullFree g \<Longrightarrow> g1 = g \<and> exhausted g"
  using drawCard_None_unchanged[of g g1] by (simp add: nullFree_def exhausted_def)

lemma samePiles_refl: "samePiles g g"
  by (simp add: samePiles_def)

lemma samePiles_trans: "samePiles g g1 \<Longrightarrow> samePiles g1 g2 \<Longrightarrow> samePiles g g2"
  by (simp add: samePiles_def)

lemma samePiles_drawCard: "drawCard g = (c, g1) \<Longrightarrow> samePiles g g1"
  unfolding samePiles_def by (subst drawCard_frame[of g c g1], assumption) (simp add: noPiles_def)

lemma samePiles_players: "samePiles g g' \<Longrightarrow> players g' = players g"
  unfolding samePiles_def noPiles_def by (drule arg_cong[where f = players]) simp

lemma samePiles_replaced: "samePiles g g' \<Longrightarrow> samePiles (replaced pi i r g) (replaced pi i r g')"
  by (cases g, cases g') (simp add: samePiles_def noPiles_def replaced_def updPlayer_def)

lemma replacePowerCard_result:
  "pi < length (players g) \<Longrightarrow> i < length (hand (players g ! pi)) \<Longrightarrow>
   (samePiles g (replacePowerCard pi i g)
      \<and> (isPowerCard (hand (players g ! pi) ! i) \<longrightarrow> nullFree g
           \<longrightarrow> exhausted (replacePowerCard pi i g))
    \<or> isPowerCard (hand (players g ! pi) ! i)
      \<and> (\<exists>r. ctype r = Number
             \<and> samePiles (replaced pi i r g) (replacePowerCard pi i g)))
   \<and> (nullFree g \<longrightarrow> nullFree (replacePowerCard pi i g))
   \<and> (exhausted g \<longrightarrow> replacePowerCard pi i g = g)"
proof (induction pi i g rule: replacePowerCard.induct)
  case (1 pi i g)
  show ?case
  proof (cases "isPowerCard (hand (players g ! pi) ! i)")
    case False
    then have "replacePowerCard pi i g = g"
      by (subst replacePowerCard.simps) simp
    with False show ?thesis by (simp add: samePiles_refl)
  next
    case pw: True
    obtain c g1 where dr: "drawCard g = (c, g1)" by (cases "drawCard g")
    have sp: "samePiles g g1" by (rule samePiles_drawCard[OF dr])
    have pl: "players g1 = players g" by (rule drawCard_players[OF dr])
    show ?thesis
    proof (cases c)
      case None
      with dr pw 1(3,4) have r: "replacePowerCard pi i g = g1"
        by (subst replacePowerCard.simps) simp
      show ?thesis
        using sp dr None drawCard_None_exhausted[of g g1] drawCard_nullFree[OF dr]
          drawCard_exhausted_iff[of g] pw
        by (auto simp: r)
    next
      case (Some r)
      show ?thesis
      proof (cases "ctype r = Number")
        case True
        let ?u = "updPlayer pi (\<lambda>p. p\<lparr>hand := (hand p)[i := r],
                   knownCards := knownAssign (knownCards p) i True\<rparr>) g1"
        have "replacePowerCard pi i g = replacePowerCard pi i ?u"
          using dr pw 1(3,4) Some True by (subst replacePowerCard.simps) simp
        also have "\<dots> = ?u"
          using True 1(3,4) pl
          by (subst replacePowerCard.simps) (simp add: updPlayer_fields isPowerCard_def)
        finally have r: "replacePowerCard pi i g = ?u" .
        have "samePiles (replaced pi i r g) ?u"
          using samePiles_replaced[OF sp] by (simp add: replaced_def)
        moreover have "nullFree g \<longrightarrow> nullFree ?u"
          using drawCard_nullFree[OF dr] by (simp add: nullFree_def updPlayer_fields)
        moreover have "\<not> exhausted g"
          using drawCard_exhausted_iff[of g] dr Some by auto
        ultimately show ?thesis using pw True by (auto simp: r)
      next
        case False
        have r: "replacePowerCard pi i g = replacePowerCard pi i g1"
          using dr pw 1(3,4) Some False by (subst replacePowerCard.simps) simp
        have ih: "(samePiles g1 (replacePowerCard pi i g1)
            \<and> (isPowerCard (hand (players g1 ! pi) ! i) \<longrightarrow> nullFree g1
               \<longrightarrow> exhausted (replacePowerCard pi i g1))
          \<or> isPowerCard (hand (players g1 ! pi) ! i)
            \<and> (\<exists>r. ctype r = Number
                   \<and> samePiles (replaced pi i r g1) (replacePowerCard pi i g1)))
          \<and> (nullFree g1 \<longrightarrow> nullFree (replacePowerCard pi i g1))
          \<and> (exhausted g1 \<longrightarrow> replacePowerCard pi i g1 = g1)"
          using 1(2)[OF _ dr[symmetric] Some False] 1(3,4) pw pl by simp
        have rp: "samePiles (replaced pi i x g) (replaced pi i x g1)" for x
          by (rule samePiles_replaced[OF sp])
        have ne: "\<not> exhausted g"
          using drawCard_exhausted_iff[of g] dr Some by auto
        show ?thesis
          using ih sp rp pl drawCard_nullFree[OF dr] ne
          by (auto simp: r intro: samePiles_trans)
      qed
    qed
  qed
qed

lemma replacePowerCard_players:
  assumes "pi < length (players g)" "i < length (hand (players g ! pi))"
  shows "(players (replacePowerCard pi i g) = players g
            \<and> (isPowerCard (hand (players g ! pi) ! i) \<longrightarrow> nullFree g
                 \<longrightarrow> exhausted (replacePowerCard pi i g))
          \<or> isPowerCard (hand (players g ! pi) ! i)
            \<and> (\<exists>r. ctype r = Number
                   \<and> players (replacePowerCard pi i g)
                       = (players g)[pi := (players g ! pi)\<lparr>hand := (hand (players g ! pi))[i := r],
                            knownCards := knownAssign (knownCards (players g ! pi)) i True\<rparr>]))
         \<and> (nullFree g \<longrightarrow> nullFree (replacePowerCard pi i g))
         \<and> (exhausted g \<longrightarrow> exhausted (replacePowerCard pi i g))"
proof -
  have "players (replacePowerCard pi i g)
        = (players g)[pi := (players g ! pi)\<lparr>hand := (hand (players g ! pi))[i := r],
                            knownCards := knownAssign (knownCards (players g ! pi)) i True\<rparr>]"
    if "samePiles (replaced pi i r g) (replacePowerCard pi i g)" for r
    using samePiles_players[OF that] by (simp add: replaced_def updPlayer_fields)
  with replacePowerCard_result[OF assms] samePiles_players[of g "replacePowerCard pi i g"]
  show ?thesis by auto
qed

lemma fold_replacePowerCard:
  "pi < length (players g) \<Longrightarrow> distinct slots
   \<Longrightarrow> \<forall>i \<in> set slots. i < length (hand (players g ! pi))
   \<Longrightarrow> length (players (fold (replacePowerCard pi) slots g)) = length (players g)
     \<and> (\<forall>q < length (players g). q \<noteq> pi
           \<longrightarrow> players (fold (replacePowerCard pi) slots g) ! q = players g ! q)
     \<and> pid (players (fold (replacePowerCard pi) slots g) ! pi) = pid (players g ! pi)
     \<and> pname (players (fold (replacePowerCard pi) slots g) ! pi) = pname (players g ! pi)
     \<and> score (players (fold (replacePowerCard pi) slots g) ! pi) = score (players g ! pi)
     \<and> totalScore (players (fold (replacePowerCard pi) slots g) ! pi) = totalScore (players g ! pi)
     \<and> length (hand (players (fold (replacePowerCard pi) slots g) ! pi))
         = length (hand (players g ! pi))
     \<and> (\<forall>i < length (hand (players g ! pi)).
           if i \<in> set slots
           then slotAfterRound (players g ! pi) (players (fold (replacePowerCard pi) slots g) ! pi) i
                  (nullFree g \<longrightarrow> exhausted (fold (replacePowerCard pi) slots g))
           else hand (players (fold (replacePowerCard pi) slots g) ! pi) ! i = hand (players g ! pi) ! i
              \<and> knownAt (knownCards (players (fold (replacePowerCard pi) slots g) ! pi)) i
                  = knownAt (knownCards (players g ! pi)) i)
     \<and> (nullFree g \<longrightarrow> nullFree (fold (replacePowerCard pi) slots g))
     \<and> (exhausted g \<longrightarrow> exhausted (fold (replacePowerCard pi) slots g))"
proof (induction slots arbitrary: g)
  case Nil
  then show ?case by simp
next
  case (Cons i slots)
  let ?g1 = "replacePowerCard pi i g"
  let ?g' = "fold (replacePowerCard pi) slots ?g1"
  from Cons.prems have i: "i < length (hand (players g ! pi))" and ni: "i \<notin> set slots"
    and ds: "distinct slots" by simp_all
  note rp = replacePowerCard_players[OF Cons.prems(1) i]
  from rp have l1: "length (players ?g1) = length (players g)" by auto
  from rp have h1: "length (hand (players ?g1 ! pi)) = length (hand (players g ! pi))"
    using Cons.prems(1) by auto
  have sl: "\<forall>k \<in> set slots. k < length (hand (players ?g1 ! pi))"
    using Cons.prems(3) h1 by simp
  have pi1: "pi < length (players ?g1)" using l1 Cons.prems(1) by simp
  note ih = Cons.IH[OF pi1 ds sl]
  have other: "\<forall>q < length (players g). q \<noteq> pi \<longrightarrow> players ?g1 ! q = players g ! q"
    using rp by auto
  have meta: "pid (players ?g1 ! pi) = pid (players g ! pi)"
    "pname (players ?g1 ! pi) = pname (players g ! pi)"
    "score (players ?g1 ! pi) = score (players g ! pi)"
    "totalScore (players ?g1 ! pi) = totalScore (players g ! pi)"
    using rp Cons.prems(1) by auto
  have rest: "\<forall>k < length (hand (players g ! pi)). k \<noteq> i \<longrightarrow>
      hand (players ?g1 ! pi) ! k = hand (players g ! pi) ! k
      \<and> knownAt (knownCards (players ?g1 ! pi)) k = knownAt (knownCards (players g ! pi)) k"
    using rp Cons.prems(1) by (auto simp: knownAt_knownAssign)
  have sloti: "slotAfterRound (players g ! pi) (players ?g1 ! pi) i (nullFree g \<longrightarrow> exhausted ?g1)"
    using rp Cons.prems(1) i by (auto simp: slotAfterRound_def knownAt_knownAssign)
  have nf: "nullFree g \<longrightarrow> nullFree ?g1" and ex: "exhausted g \<longrightarrow> exhausted ?g1"
    using rp by auto
  have keep: "hand (players ?g' ! pi) ! i = hand (players ?g1 ! pi) ! i
      \<and> knownAt (knownCards (players ?g' ! pi)) i = knownAt (knownCards (players ?g1 ! pi)) i"
    using ih ni i h1 by auto
  have ex': "exhausted ?g1 \<longrightarrow> exhausted ?g'" using ih by simp
  have sloti': "slotAfterRound (players g ! pi) (players ?g' ! pi) i (nullFree g \<longrightarrow> exhausted ?g')"
    using sloti keep ex' by (auto simp: slotAfterRound_def)
  have slotk: "slotAfterRound (players g ! pi) (players ?g' ! pi) k (nullFree g \<longrightarrow> exhausted ?g')"
    if "k \<in> set slots" for k
  proof -
    from that ni have ki: "k \<noteq> i" by auto
    from that Cons.prems(3) have kl: "k < length (hand (players g ! pi))" by simp
    from ih that kl h1 have
      "slotAfterRound (players ?g1 ! pi) (players ?g' ! pi) k (nullFree ?g1 \<longrightarrow> exhausted ?g')"
      by auto
    with rest ki kl nf show ?thesis by (auto simp: slotAfterRound_def)
  qed
  have unt: "hand (players ?g' ! pi) ! k = hand (players g ! pi) ! k
      \<and> knownAt (knownCards (players ?g' ! pi)) k = knownAt (knownCards (players g ! pi)) k"
    if "k < length (hand (players g ! pi))" "k \<notin> set (i # slots)" for k
    using ih rest that h1 by auto
  show ?case
    using ih l1 h1 other meta nf ex sloti' slotk unt
    by (simp del: fold_simps add: fold_simps(2)[of "replacePowerCard pi" i slots g])
qed

lemma slotAfterRound_mono:
  "slotAfterRound p p' i e \<Longrightarrow> (e \<longrightarrow> e') \<Longrightarrow> slotAfterRound p p' i e'"
  by (auto simp: slotAfterRound_def split: if_splits)

lemma playerAfterRound_mono:
  "playerAfterRound p p' e \<Longrightarrow> (e \<longrightarrow> e') \<Longrightarrow> playerAfterRound p p' e'"
  unfolding playerAfterRound_def using slotAfterRound_mono by blast

lemma endRoundPlayer_result:
  assumes "pi < length (players g)"
  shows "length (players (endRoundPlayer g pi)) = length (players g)
     \<and> (\<forall>q < length (players g). q \<noteq> pi \<longrightarrow> players (endRoundPlayer g pi) ! q = players g ! q)
     \<and> playerAfterRound (players g ! pi) (players (endRoundPlayer g pi) ! pi)
          (nullFree g \<longrightarrow> exhausted (endRoundPlayer g pi))
     \<and> (nullFree g \<longrightarrow> nullFree (endRoundPlayer g pi))
     \<and> (exhausted g \<longrightarrow> exhausted (endRoundPlayer g pi))"
proof -
  let ?f = "fold (replacePowerCard pi) [0..<length (hand (players g ! pi))] g"
  have f: "length (players ?f) = length (players g)"
    "\<forall>q < length (players g). q \<noteq> pi \<longrightarrow> players ?f ! q = players g ! q"
    "pid (players ?f ! pi) = pid (players g ! pi)"
    "pname (players ?f ! pi) = pname (players g ! pi)"
    "score (players ?f ! pi) = score (players g ! pi)"
    "totalScore (players ?f ! pi) = totalScore (players g ! pi)"
    "length (hand (players ?f ! pi)) = length (hand (players g ! pi))"
    "\<forall>i < length (hand (players g ! pi)).
        slotAfterRound (players g ! pi) (players ?f ! pi) i (nullFree g \<longrightarrow> exhausted ?f)"
    "nullFree g \<longrightarrow> nullFree ?f" "exhausted g \<longrightarrow> exhausted ?f"
    using fold_replacePowerCard[OF assms, of "[0..<length (hand (players g ! pi))]"]
    by simp_all
  have e: "endRoundPlayer g pi
     = updPlayer pi (\<lambda>p. let q = calculateScore p in q\<lparr>totalScore := totalScore q + score q\<rparr>) ?f"
    by (simp add: endRoundPlayer_def Let_def)
  have pf: "pi < length (players ?f)" using f(1) assms by simp
  show ?thesis
    unfolding e using f pf assms
    by (simp add: updPlayer_fields playerAfterRound_def slotAfterRound_def calculateScore_def
          Let_def nullFree_def exhausted_def)
qed

lemma fold_endRoundPlayer:
  "distinct pis \<Longrightarrow> \<forall>pi \<in> set pis. pi < length (players g)
   \<Longrightarrow> length (players (fold (\<lambda>pi h. endRoundPlayer h pi) pis g)) = length (players g)
     \<and> (\<forall>q < length (players g).
           if q \<in> set pis
           then playerAfterRound (players g ! q) (players (fold (\<lambda>pi h. endRoundPlayer h pi) pis g) ! q)
                  (nullFree g \<longrightarrow> exhausted (fold (\<lambda>pi h. endRoundPlayer h pi) pis g))
           else players (fold (\<lambda>pi h. endRoundPlayer h pi) pis g) ! q = players g ! q)
     \<and> (nullFree g \<longrightarrow> nullFree (fold (\<lambda>pi h. endRoundPlayer h pi) pis g))
     \<and> (exhausted g \<longrightarrow> exhausted (fold (\<lambda>pi h. endRoundPlayer h pi) pis g))"
proof (induction pis arbitrary: g)
  case Nil
  then show ?case by simp
next
  case (Cons pi pis)
  let ?g1 = "endRoundPlayer g pi"
  let ?G = "fold (\<lambda>pi h. endRoundPlayer h pi) pis ?g1"
  from Cons.prems have pi: "pi < length (players g)" and ni: "pi \<notin> set pis"
    and ds: "distinct pis" by simp_all
  note r = endRoundPlayer_result[OF pi]
  from r have l1: "length (players ?g1) = length (players g)" by simp
  have "\<forall>q \<in> set pis. q < length (players ?g1)" using Cons.prems(2) l1 by simp
  note ih = Cons.IH[OF ds this]
  have ex': "exhausted ?g1 \<longrightarrow> exhausted ?G" and nf: "nullFree g \<longrightarrow> nullFree ?g1"
    using ih r by simp_all
  have a: "playerAfterRound (players g ! pi) (players ?G ! pi) (nullFree g \<longrightarrow> exhausted ?G)"
  proof -
    from ih ni pi l1 have "players ?G ! pi = players ?g1 ! pi" by auto
    moreover from r have "playerAfterRound (players g ! pi) (players ?g1 ! pi)
        (nullFree g \<longrightarrow> exhausted ?g1)" by simp
    ultimately show ?thesis using ex' by (auto elim: playerAfterRound_mono)
  qed
  have b: "playerAfterRound (players g ! q) (players ?G ! q) (nullFree g \<longrightarrow> exhausted ?G)"
    if "q \<in> set pis" for q
  proof -
    from that ni have qp: "q \<noteq> pi" by auto
    from that Cons.prems(2) have ql: "q < length (players g)" by simp
    from r qp ql have "players ?g1 ! q = players g ! q" by simp
    moreover from ih that ql l1 have "playerAfterRound (players ?g1 ! q) (players ?G ! q)
        (nullFree ?g1 \<longrightarrow> exhausted ?G)" by auto
    ultimately show ?thesis using nf by (auto elim: playerAfterRound_mono)
  qed
  have c: "players ?G ! q = players g ! q" if "q < length (players g)" "q \<notin> set (pi # pis)" for q
    using ih r that l1 by auto
  show ?case using ih r l1 a b c by (simp del: fold_simps add: fold_simps(2)[of _ pi pis g])
qed

text \<open>After \<open>endRound\<close>, for every player: a slot that held a power card holds a number
  card and is marked known, or still holds its power card, and then, when the piles held
  cards only, nothing can be drawn any more; the other slots and their mask entries are
  unchanged; the round score is the sum of \<open>getPoints\<close> over the final hand, it was added
  to the cumulative score, and the round is marked ended.\<close>

lemma endRound_on_cards:
  assumes "pi < length (players g)"
  shows "roundEnded (endRound g)
    \<and> length (players (endRound g)) = length (players g)
    \<and> length (hand (players (endRound g) ! pi)) = length (hand (players g ! pi))
    \<and> score (players (endRound g) ! pi)
        = sum_list (map getPoints (hand (players (endRound g) ! pi)))
    \<and> totalScore (players (endRound g) ! pi)
        = totalScore (players g ! pi) + score (players (endRound g) ! pi)
    \<and> (\<forall>i < length (hand (players g ! pi)).
          if isPowerCard (hand (players g ! pi) ! i)
          then (ctype (hand (players (endRound g) ! pi) ! i) = Number
                \<and> knownAt (knownCards (players (endRound g) ! pi)) i)
             \<or> (hand (players (endRound g) ! pi) ! i = hand (players g ! pi) ! i
                \<and> knownAt (knownCards (players (endRound g) ! pi)) i
                    = knownAt (knownCards (players g ! pi)) i
                \<and> (nullFree g \<longrightarrow> exhausted (endRound g)))
          else hand (players (endRound g) ! pi) ! i = hand (players g ! pi) ! i
             \<and> knownAt (knownCards (players (endRound g) ! pi)) i
                 = knownAt (knownCards (players g ! pi)) i)"
proof -
  let ?F = "fold (\<lambda>pi h. endRoundPlayer h pi) [0..<length (players g)] g"
  have e: "endRound g = ?F\<lparr>roundEnded := True\<rparr>" by (simp add: endRound_def)
  have ex: "exhausted (endRound g) = exhausted ?F" by (simp add: e exhausted_def)
  have pl: "players (endRound g) = players ?F" by (simp add: e)
  from fold_endRoundPlayer[of "[0..<length (players g)]" g] assms
  have "length (players ?F) = length (players g)"
    and "playerAfterRound (players g ! pi) (players ?F ! pi) (nullFree g \<longrightarrow> exhausted ?F)"
    by simp_all
  then show ?thesis
    unfolding pl ex by (simp add: e playerAfterRound_def slotAfterRound_def)
qed

subsection \<open>The current player index\<close>

lemma noHands_drawCard: "drawCard g = (c, g1) \<Longrightarrow> noHands g1 = noHands g"
  using samePiles_drawCard[of g c g1] by (simp add: noHands_def samePiles_def)

lemma noHands_updPlayer: "noHands (updPlayer pi f g) = noHands g"
  by (simp add: noHands_def noPiles_def updPlayer_def)

lemma noHands_replacePowerCard: "noHands (replacePowerCard pi i g) = noHands g"
proof (induction pi i g rule: replacePowerCard.induct)
  case (1 pi i g)
  show ?case
  proof (cases "pi < length (players g) \<and> i < length (hand (players g ! pi))
         \<and> isPowerCard (hand (players g ! pi) ! i)")
    case False
    then have "replacePowerCard pi i g = g"
      by (subst replacePowerCard.simps) (simp only: if_False)
    then show ?thesis by simp
  next
    case True
    obtain c g1 where dr: "drawCard g = (c, g1)" by (cases "drawCard g")
    show ?thesis
    proof (cases c)
      case None
      with dr True have "replacePowerCard pi i g = g1" by (subst replacePowerCard.simps) simp
      with noHands_drawCard[OF dr] show ?thesis by simp
    next
      case (Some r)
      show ?thesis
      proof (cases "ctype r = Number")
        case n: True
        let ?u = "updPlayer pi (\<lambda>p. p\<lparr>hand := (hand p)[i := r],
                   knownCards := knownAssign (knownCards p) i True\<rparr>) g1"
        have "replacePowerCard pi i g = replacePowerCard pi i ?u"
          using dr True Some n by (subst replacePowerCard.simps) simp
        with 1(1)[OF True dr[symmetric] Some n] noHands_drawCard[OF dr]
        show ?thesis by (simp add: noHands_updPlayer)
      next
        case n: False
        have "replacePowerCard pi i g = replacePowerCard pi i g1"
          using dr True Some n by (subst replacePowerCard.simps) simp
        with 1(2)[OF True dr[symmetric] Some n] noHands_drawCard[OF dr]
        show ?thesis by simp
      qed
    qed
  qed
qed

lemma noHands_fold_replace: "noHands (fold (replacePowerCard pi) slots g) = noHands g"
  by (induction slots arbitrary: g) (simp_all add: noHands_replacePowerCard)

lemma noHands_endRoundPlayer: "noHands (endRoundPlayer g pi) = noHands g"
  by (simp add: endRoundPlayer_def Let_def noHands_updPlayer noHands_fold_replace)

lemma noHands_fold_endRoundPlayer:
  "noHands (fold (\<lambda>pi h. endRoundPlayer h pi) pis g) = noHands g"
  by (induction pis arbitrary: g) (simp_all add: noHands_endRoundPlayer)

lemma noHands_roundEnded:
  "noHands h = noHands g \<Longrightarrow> noHands (h\<lparr>roundEnded := True\<rparr>) = noHands (g\<lparr>roundEnded := True\<rparr>)"
  by (cases g, cases h) (simp add: noHands_def noPiles_def)

lemma noHands_endRound: "noHands (endRound g) = noHands (g\<lparr>roundEnded := True\<rparr>)"
  unfolding endRound_def by (rule noHands_roundEnded[OF noHands_fold_endRoundPlayer])

lemma noHands_fields:
  assumes "noHands g' = noHands g"
  shows "gameStarted g' = gameStarted g" "currentPlayerIndex g' = currentPlayerIndex g"
    "drawnCard g' = drawnCard g" "draw2ChainActive g' = draw2ChainActive g"
    "finalRoundActive g' = finalRoundActive g" "knockerId g' = knockerId g"
    "roundEnded g' = roundEnded g" "playersCompletedFinalTurn g' = playersCompletedFinalTurn g"
    "draw2CardsRemaining g' = draw2CardsRemaining g" "drawnFromDiscard g' = drawnFromDiscard g"
    "gameId g' = gameId g" "randomValues g' = randomValues g"
  using arg_cong[where f = gameStarted, OF assms] arg_cong[where f = currentPlayerIndex, OF assms]
    arg_cong[where f = drawnCard, OF assms] arg_cong[where f = draw2ChainActive, OF assms]
    arg_cong[where f = finalRoundActive, OF assms] arg_cong[where f = knockerId, OF assms]
    arg_cong[where f = roundEnded, OF assms] arg_cong[where f = playersCompletedFinalTurn, OF assms]
    arg_cong[where f = draw2CardsRemaining, OF assms] arg_cong[where f = drawnFromDiscard, OF assms]
    arg_cong[where f = gameId, OF assms] arg_cong[where f = randomValues, OF assms]
  by (simp_all add: noHands_def noPiles_def)

lemma endRound_length: "length (players (endRound g)) = length (players g)"
  using fold_endRoundPlayer[of "[0..<length (players g)]" g] by (simp add: endRound_def)

lemma endTurn_turnMoved:
  assumes "endTurn g = Some (Returns g')"
  shows "turnMoved g g'"
proof (cases "endsRound g")
  case True
  with assms have g': "g' = endRound (g\<lparr>drawnCard := None, drawnFromDiscard := False,
       playersCompletedFinalTurn := playersCompletedFinalTurn g + 1\<rparr>)"
    by (auto simp: endTurn_def endsRound_def Let_def)
  show ?thesis
    unfolding g' turnMoved_def
    using noHands_fields(1,2)[OF noHands_endRound]
    by (simp add: endRound_length)
next
  case False
  let ?h = "if finalRoundActive g
            then g\<lparr>drawnCard := None, drawnFromDiscard := False,
                   playersCompletedFinalTurn := playersCompletedFinalTurn g + 1\<rparr>
            else g\<lparr>drawnCard := None, drawnFromDiscard := False\<rparr>"
  from assms False have "advanceTurn ?h = Some (Returns g')"
    by (auto simp: endTurn_def endsRound_def Let_def split: if_splits)
  from advanceTurn_result[OF this] have
    fr: "g' = ?h\<lparr>currentPlayerIndex := currentPlayerIndex g'\<rparr>"
    and ix: "case currentPlayerIndex ?h of
                   NaN \<Rightarrow> currentPlayerIndex g' = NaN
                 | Idx i \<Rightarrow> if players ?h = [] then currentPlayerIndex g' = NaN
                            else \<exists>j < length (players ?h). currentPlayerIndex g' = Idx j"
    by simp_all
  have "gameStarted g' = gameStarted g" "players g' = players g"
    by (subst fr, simp)+
  with ix show ?thesis by (auto simp: turnMoved_def split: if_splits jsIndex.splits)
qed

lemma knockAdvance_result:
  assumes "knockAdvance g = Some y"
  shows "case y of Throws \<Rightarrow> True
         | Returns g' \<Rightarrow> g' = g\<lparr>currentPlayerIndex := currentPlayerIndex g'\<rparr>
             \<and> (\<exists>j < length (players g). currentPlayerIndex g' = Idx j)"
proof -
  let ?P = "\<lambda>(g::game) y. case y of Throws \<Rightarrow> True
         | Returns g' \<Rightarrow> g' = g\<lparr>currentPlayerIndex := currentPlayerIndex g'\<rparr>
             \<and> (\<exists>j < length (players g). currentPlayerIndex g' = Idx j)"
  show ?thesis
  proof (rule knockAdvance.raw_induct[where P = ?P, OF _ assms])
    fix adv :: "game \<Rightarrow> game outcome option" and g :: game and y
    let ?g1 = "g\<lparr>currentPlayerIndex := nextIndex (currentPlayerIndex g) (length (players g))\<rparr>"
    assume IH: "\<And>x y. adv x = Some y \<Longrightarrow> ?P x y"
      and step: "(let g1 = ?g1
            in case getCurrentPlayer g1 of
                 None \<Rightarrow> Some Throws
               | Some p \<Rightarrow> if Some (pid p) = knockerId g1 then adv g1
                           else Some (Returns g1)) = Some y"
    show "?P g y"
    proof (cases "\<exists>p. getCurrentPlayer ?g1 = Some p \<and> Some (pid p) = knockerId g")
      case True
      with step have "adv ?g1 = Some y" by (auto simp: Let_def)
      from IH[OF this] show ?thesis by (auto split: outcome.splits)
    next
      case False
      with step have "y = Throws \<or> (y = Returns ?g1 \<and> getCurrentPlayer ?g1 \<noteq> None)"
        by (auto simp: Let_def split: if_splits option.splits)
      then show ?thesis
        by (auto simp: getCurrentPlayer_def currentSlot_def split: outcome.splits jsIndex.splits if_splits)
    qed
  qed
qed

lemma turnMoved_cong:
  "turnMoved h g' \<Longrightarrow> gameStarted h = gameStarted g \<Longrightarrow> length (players h) = length (players g)
   \<Longrightarrow> currentPlayerIndex h = currentPlayerIndex g \<Longrightarrow> turnMoved g g'"
  by (simp add: turnMoved_def)

lemma turnMoved_same:
  "gameStarted g' = gameStarted g \<Longrightarrow> length (players g') = length (players g)
   \<Longrightarrow> currentPlayerIndex g' = currentPlayerIndex g \<Longrightarrow> turnMoved g g'"
  by (simp add: turnMoved_def)

lemma drawCard_fields:
  assumes "drawCard g = (c, g1)"
  shows "players g1 = players g" "gameStarted g1 = gameStarted g"
    "currentPlayerIndex g1 = currentPlayerIndex g" "drawnCard g1 = drawnCard g"
    "draw2ChainActive g1 = draw2ChainActive g" "finalRoundActive g1 = finalRoundActive g"
    "knockerId g1 = knockerId g" "roundEnded g1 = roundEnded g"
    "playersCompletedFinalTurn g1 = playersCompletedFinalTurn g"
    "draw2CardsRemaining g1 = draw2CardsRemaining g" "drawnFromDiscard g1 = drawnFromDiscard g"
  using drawCard_players[OF assms] noHands_fields[OF noHands_drawCard[OF assms]] by simp_all

lemma endTurn_after:
  assumes "returning r (endTurn h) = Some (Returns (r', g'))"
    and "gameStarted h = gameStarted g" and "length (players h) = length (players g)"
    and "currentPlayerIndex h = currentPlayerIndex g"
  shows "turnMoved g g'"
  using assms(1) turnMoved_cong[OF endTurn_turnMoved assms(2,3,4)] by (simp add: returning_eq)

lemma drawFromDiscardPile_turnMoved:
  "drawFromDiscardPile g = Some (Returns (r, g')) \<Longrightarrow> turnMoved g g'"
  by (auto simp: drawFromDiscardPile_def Let_def turnMoved_def split: if_splits option.splits)

lemma drawFromDeck_turnMoved:
  "drawFromDeck g = Some (Returns (r, g')) \<Longrightarrow> turnMoved g g'"
  by (auto simp: drawFromDeck_def turnMoved_def drawCard_fields
           split: if_splits option.splits prod.splits)

lemma replaceCardInHand_turnMoved:
  "replaceCardInHand i g = Some (Returns (r, g')) \<Longrightarrow> turnMoved g g'"
  by (auto simp: replaceCardInHand_def Let_def updPlayer_fields
           split: if_splits option.splits intro: turnMoved_same elim!: endTurn_after)

lemma discardDrawnCard_turnMoved:
  "discardDrawnCard g = Some (Returns (r, g')) \<Longrightarrow> turnMoved g g'"
  by (auto simp: discardDrawnCard_def Let_def
           split: if_splits intro: turnMoved_same elim!: endTurn_after)

lemma usePeek_turnMoved:
  "usePeek i g = Some (Returns (r, g')) \<Longrightarrow> turnMoved g g'"
  by (auto simp: usePeek_def Let_def
           split: if_splits option.splits intro: turnMoved_same elim!: endTurn_after)

lemma useSwap_turnMoved:
  "useSwap i opp j g = Some (Returns (r, g')) \<Longrightarrow> turnMoved g g'"
  by (auto simp: useSwap_def Let_def updPlayer_fields
           split: if_splits option.splits intro: turnMoved_same elim!: endTurn_after)

lemma declineSwap_turnMoved:
  "declineSwap g = Some (Returns (r, g')) \<Longrightarrow> turnMoved g g'"
  by (auto simp: declineSwap_def Let_def
           split: if_splits intro: turnMoved_same elim!: endTurn_after)

lemma useDraw2_turnMoved:
  "useDraw2 g = Some (Returns (r, g')) \<Longrightarrow> turnMoved g g'"
  by (auto simp: useDraw2_def Let_def drawCard_fields
           split: if_splits option.splits prod.splits
           intro: turnMoved_same elim!: endTurn_after)

lemma handleDraw2Card_turnMoved:
  assumes "handleDraw2Card a i g = Some (Returns (r, g'))"
  shows "turnMoved g g'"
proof (cases "draw2ChainActive g")
  case False
  with assms show ?thesis by (auto simp: handleDraw2Card_def intro: turnMoved_same)
next
  case active: True
  show ?thesis
  proof (cases "if a = ''use'' then i else None")
    case (Some ix)
    with assms active obtain g1 where
      "replaceCardInHand ix g = Some (Returns (r, g1))"
      "g' = g1 \<or> g' = g1\<lparr>draw2ChainActive := False, draw2CardsRemaining := 0\<rparr>"
      by (auto simp: handleDraw2Card_def split: option.splits outcome.splits if_splits)
    with replaceCardInHand_turnMoved[of ix g r g1] show ?thesis
      by (auto simp: turnMoved_def)
  next
    case None
    with assms active show ?thesis
      by (auto simp: handleDraw2Card_def Let_def drawCard_fields
           split: if_splits option.splits prod.splits
           intro: turnMoved_same elim!: endTurn_after)
  qed
qed

lemma useAddCard_turnMoved:
  "useAddCard g = Some (Returns (r, g')) \<Longrightarrow> turnMoved g g'"
  by (auto simp: useAddCard_def Let_def drawCard_fields updPlayer_fields
           split: if_splits option.splits prod.splits outcome.splits
           intro: turnMoved_same elim!: endTurn_after)

lemma knock_result:
  assumes "knock g = Some (Returns (r, g'))"
  shows "g' = g \<or> (\<exists>k. g' = g\<lparr>knockerId := k, finalRoundActive := True,
                       playersCompletedFinalTurn := 0, drawnCard := None,
                       drawnFromDiscard := False, currentPlayerIndex := currentPlayerIndex g'\<rparr>
                    \<and> (\<exists>j < length (players g). currentPlayerIndex g' = Idx j))"
proof (cases "truthyId (knockerId g)")
  case True
  with assms show ?thesis by (simp add: knock_def)
next
  case False
  with assms obtain p where p: "getCurrentPlayer g = Some p"
    and k: "knockAdvance (g\<lparr>knockerId := Some (pid p), finalRoundActive := True,
                           playersCompletedFinalTurn := 0, drawnCard := None,
                           drawnFromDiscard := False\<rparr>) = Some (Returns g')"
    by (auto simp: knock_def Let_def returning_eq split: option.splits)
  from knockAdvance_result[OF k] show ?thesis by auto
qed

lemma knock_turnMoved:
  assumes "knock g = Some (Returns (r, g'))"
  shows "turnMoved g g'"
proof -
  from knock_result[OF assms] consider "g' = g"
    | k where "g' = g\<lparr>knockerId := k, finalRoundActive := True,
                       playersCompletedFinalTurn := 0, drawnCard := None,
                       drawnFromDiscard := False, currentPlayerIndex := currentPlayerIndex g'\<rparr>"
        "\<exists>j < length (players g). currentPlayerIndex g' = Idx j"
    by blast
  then show ?thesis
  proof cases
    case 1
    then show ?thesis by (simp add: turnMoved_def)
  next
    case 2
    from assms have "getCurrentPlayer g \<noteq> None \<or> g' = g"
      by (auto simp: knock_def split: if_splits option.splits)
    moreover have "gameStarted g' = gameStarted g" "players g' = players g"
      by (subst 2(1), simp)+
    ultimately show ?thesis using 2(2)
      by (auto simp: turnMoved_def getCurrentPlayer_def currentSlot_def split: jsIndex.splits)
  qed
qed

lemma act_turnMoved: "act a g = Some (Returns (r, g')) \<Longrightarrow> turnMoved g g'"
  by (cases a)
     (auto dest: drawFromDiscardPile_turnMoved drawFromDeck_turnMoved replaceCardInHand_turnMoved
        discardDrawnCard_turnMoved usePeek_turnMoved useSwap_turnMoved declineSwap_turnMoved
        useDraw2_turnMoved handleDraw2Card_turnMoved useAddCard_turnMoved knock_turnMoved)

lemma act_before_start:
  assumes "act a g = Some (Returns (r, g'))" and "a \<noteq> Knock"
    and "deck g = []" "discardPile g = []" "drawnCard g = None" "\<not> draw2ChainActive g"
  shows "g' = g"
  using assms
  by (cases a)
     (auto simp: drawFromDiscardPile_def drawFromDeck_def replaceCardInHand_def
        discardDrawnCard_def usePeek_def useSwap_def declineSwap_def useDraw2_def
        handleDraw2Card_def useAddCard_def notDrawn_def drawCard_exhausted)

lemma lobbyInv_act:
  assumes "lobbyInv g" and "act a g = Some (Returns (r, g'))"
  shows "lobbyInv g'"
proof (cases "gameStarted g")
  case True
  with act_turnMoved[OF assms(2)] assms(1) show ?thesis
    by (auto simp: lobbyInv_def turnMoved_def split: jsIndex.splits)
next
  case False
  show ?thesis
  proof (cases "a = Knock")
    case n: False
    from assms(1) False have "deck g = []" "discardPile g = []" "drawnCard g = None"
      "\<not> draw2ChainActive g" by (auto simp: lobbyInv_def)
    from act_before_start[OF assms(2) n this] assms(1) show ?thesis by simp
  next
    case True
    with assms(2) have k: "knock g = Some (Returns (r, g'))" by simp
    from knock_result[OF k] show ?thesis
    proof
      assume "g' = g" with assms(1) show ?thesis by simp
    next
      assume "\<exists>k. g' = g\<lparr>knockerId := k, finalRoundActive := True,
                       playersCompletedFinalTurn := 0, drawnCard := None,
                       drawnFromDiscard := False, currentPlayerIndex := currentPlayerIndex g'\<rparr>
                    \<and> (\<exists>j < length (players g). currentPlayerIndex g' = Idx j)"
      then obtain k j where g': "g' = g\<lparr>knockerId := k, finalRoundActive := True,
                       playersCompletedFinalTurn := 0, drawnCard := None,
                       drawnFromDiscard := False, currentPlayerIndex := currentPlayerIndex g'\<rparr>"
        and j: "j < length (players g)" "currentPlayerIndex g' = Idx j" by blast
      have f: "gameStarted g' = gameStarted g" "players g' = players g" "deck g' = deck g"
        "discardPile g' = discardPile g" "drawnCard g' = None"
        "draw2ChainActive g' = draw2ChainActive g"
        by (subst g', simp)+
      with assms(1) j show ?thesis by (auto simp: lobbyInv_def)
    qed
  qed
qed

lemma lobbyInv_perform:
  assumes "lobbyInv g" and "perform x g = Some g'"
  shows "lobbyInv g'"
proof (cases x)
  case (AddPlayer i n)
  with assms show ?thesis
    by (auto simp: addPlayer_def lobbyInv_def split: if_splits jsIndex.splits)
next
  case (RemovePlayer i)
  with assms show ?thesis
    by (auto simp: removePlayer_def lobbyInv_def Let_def split: if_splits jsIndex.splits)
next
  case StartRound
  with assms obtain b where s: "startRound g = Some (Returns (b, g'))"
    by (cases "startRound g" rule: stateAfter.cases) auto
  show ?thesis
  proof (cases b)
    case True
    with s startRound_deal[of g g'] have "2 \<le> length (players g')" "currentPlayerIndex g' = Idx 0"
      by auto
    moreover from s True have "gameStarted g'"
      by (auto simp: startRound_def Let_def split: if_splits option.splits prod.splits outcome.splits)
    ultimately show ?thesis by (simp add: lobbyInv_def)
  next
    case False
    with s have "g' = g"
      by (auto simp: startRound_def Let_def split: if_splits option.splits prod.splits outcome.splits)
    with assms(1) show ?thesis by simp
  qed
next
  case (Action a)
  with assms obtain r where "act a g = Some (Returns (r, g'))"
    by (cases "act a g" rule: stateAfter.cases) auto
  from lobbyInv_act[OF assms(1) this] show ?thesis .
qed

lemma reachable_lobbyInv: "reachable g \<Longrightarrow> lobbyInv g"
proof (induction rule: reachable.induct)
  case (init gid rs)
  show ?case by (simp add: lobbyInv_def newGame_def)
next
  case (step g x g')
  then show ?case by (auto intro: lobbyInv_perform)
qed

lemma reachable_performAll:
  "reachable g \<Longrightarrow> performAll xs g = Some g' \<Longrightarrow> reachable g'"
  by (induction xs arbitrary: g) (auto split: option.splits intro: reachable.step)

text \<open>Claim C10. In every state that a new game reaches through the public operations
  (\<open>addPlayer\<close>, \<open>removePlayer\<close>, \<open>startRound\<close> and the actions, \<open>knock\<close> among them),
  whenever there are players, \<open>currentPlayerIndex\<close> is an index into the list of players
  and \<open>getCurrentPlayer\<close> returns the player there.\<close>

theorem currentPlayerIndex_valid:
  assumes "reachable g" and "players g \<noteq> []"
  shows "\<exists>i. currentPlayerIndex g = Idx i \<and> i < length (players g)
             \<and> getCurrentPlayer g = Some (players g ! i)"
  using reachable_lobbyInv[OF assms(1)] assms(2)
  by (auto simp: lobbyInv_def getCurrentPlayer_def currentSlot_def split: jsIndex.splits)

theorem currentPlayerIndex_valid_witness:
  "reachable (the (performAll knockAndLeave (newGame ''G'' (\<lambda>_. 0))))
   \<and> players (the (performAll knockAndLeave (newGame ''G'' (\<lambda>_. 0)))) \<noteq> []
   \<and> (\<exists>i. currentPlayerIndex (the (performAll knockAndLeave (newGame ''G'' (\<lambda>_. 0)))) = Idx i
          \<and> i < length (players (the (performAll knockAndLeave (newGame ''G'' (\<lambda>_. 0)))))
          \<and> getCurrentPlayer (the (performAll knockAndLeave (newGame ''G'' (\<lambda>_. 0))))
              = Some (players (the (performAll knockAndLeave (newGame ''G'' (\<lambda>_. 0)))) ! i))"
proof -
  let ?g = "the (performAll knockAndLeave (newGame ''G'' (\<lambda>_. 0)))"
  have n: "map_option (\<lambda>g. length (players g)) (performAll knockAndLeave (newGame ''G'' (\<lambda>_. 0)))
           = Some 2"
    by code_simp
  then have p: "performAll knockAndLeave (newGame ''G'' (\<lambda>_. 0)) = Some ?g"
    and l: "length (players ?g) = 2" by auto
  have a: "reachable ?g" by (rule reachable_performAll[OF reachable.init p])
  have b: "players ?g \<noteq> []" using l by auto
  from currentPlayerIndex_valid[OF a b] a b show ?thesis by blast
qed

subsection \<open>Card conservation\<close>

lemma optCard_simps: "optCard None = {#}" "optCard (Some c) = {#Some c#}"
  by (simp_all add: optCard_def)

lemma draw_step:
  assumes "nullFree g" "drawCard g = (c, g1)"
  shows "nullFree g1
     \<and> count (mset (deck g1)) x + count (mset (discardPile g1)) x + count (optCard c) x
         = count (mset (deck g)) x + count (mset (discardPile g)) x
     \<and> players g1 = players g \<and> drawnCard g1 = drawnCard g \<and> roundEnded g1 = roundEnded g
     \<and> finalRoundActive g1 = finalRoundActive g
     \<and> playersCompletedFinalTurn g1 = playersCompletedFinalTurn g"
proof -
  have "mset (deck g1) + mset (discardPile g1) + optCard c = mset (deck g) + mset (discardPile g)"
  proof (cases c)
    case None
    with drawCard_None_exhausted[of g g1] assms show ?thesis by (simp add: optCard_simps)
  next
    case (Some a)
    have "\<not> exhausted g" using drawCard_exhausted_iff[of g] assms(2) Some by auto
    then have "deck g \<noteq> [] \<or> length (discardPile g) > 1" by (auto simp: exhausted_def)
    from drawCard_mset[OF assms(2) this] Some show ?thesis by (simp add: optCard_simps)
  qed
  from arg_cong[where f = "\<lambda>m. count m x", OF this] drawCard_nullFree[OF assms(2,1)]
    drawCard_fields[OF assms(2)]
  show ?thesis by simp
qed

lemma roundEnded_endRound: "roundEnded (endRound g)"
  by (simp add: endRound_def)

lemma endTurn_cards:
  assumes "endTurn h = Some (Returns g')" "\<not> roundEnded g'"
  shows "deck g' = deck h \<and> discardPile g' = discardPile h \<and> players g' = players h
         \<and> drawnCard g' = None"
proof -
  have ne: "\<not> endsRound h"
  proof
    assume "endsRound h"
    with assms(1) have "g' = endRound (h\<lparr>drawnCard := None, drawnFromDiscard := False,
       playersCompletedFinalTurn := playersCompletedFinalTurn h + 1\<rparr>)"
      by (auto simp: endTurn_def endsRound_def Let_def)
    with assms(2) show False by (simp add: roundEnded_endRound)
  qed
  have "deck g' = deck h" "discardPile g' = discardPile h" "players g' = players h"
       "drawnCard g' = None"
    by (subst endTurn_frame[OF assms(1) ne], simp)+
  then show ?thesis by simp
qed

lemma returning_endTurn_cards:
  "returning r (endTurn h) = Some (Returns (r', g')) \<Longrightarrow> \<not> roundEnded g'
   \<Longrightarrow> deck g' = deck h \<and> discardPile g' = discardPile h \<and> players g' = players h
         \<and> drawnCard g' = None"
  by (auto simp: returning_eq dest: endTurn_cards)

lemma drawFromDeck_cards:
  assumes "drawFromDeck g = Some (Returns (r, g'))" "nullFree g"
  shows "cardsInPlay g' = cardsInPlay g"
proof (rule multiset_eqI)
  fix x
  from assms show "count (cardsInPlay g') x = count (cardsInPlay g) x"
    by (auto simp: drawFromDeck_def cardsInPlay_def optCard_simps
             split: if_splits option.splits prod.splits
             dest!: draw_step[where x = x, rotated])
qed

lemma useDraw2_cards:
  assumes "useDraw2 g = Some (Returns (r, g'))" "nullFree g" "\<not> roundEnded g'"
  shows "cardsInPlay g' = cardsInPlay g"
proof (rule multiset_eqI)
  fix x
  from assms show "count (cardsInPlay g') x = count (cardsInPlay g) x"
    by (auto simp: useDraw2_def Let_def cardsInPlay_def optCard_simps notDrawn_def nullFree_def
             split: if_splits option.splits prod.splits
             dest!: draw_step[where x = x, rotated] returning_endTurn_cards)
qed

lemma handsOf_update:
  "pi < length ps \<Longrightarrow>
     handsOf (ps[pi := p']) + mset (map Some (hand (ps ! pi)))
       = handsOf ps + mset (map Some (hand p'))"
proof (induction ps arbitrary: pi)
  case Nil
  then show ?case by simp
next
  case (Cons p ps)
  show ?case
  proof (cases pi)
    case 0
    then show ?thesis by (simp add: handsOf_def)
  next
    case (Suc k)
    with Cons.prems have "k < length ps" by simp
    from Cons.IH[OF this] Suc show ?thesis by (simp add: handsOf_def ac_simps)
  qed
qed

lemma mset_Some_update:
  "i < length h \<Longrightarrow>
     mset (map Some (h[i := c])) + {#Some (h ! i)#} = mset (map Some h) + {#Some c#}"
proof (induction h arbitrary: i)
  case Nil
  then show ?case by simp
next
  case (Cons a h)
  show ?case
  proof (cases i)
    case 0
    then show ?thesis by simp
  next
    case (Suc k)
    with Cons.prems have "k < length h" by simp
    from Cons.IH[OF this] Suc show ?thesis by simp
  qed
qed

lemma currentSlot_Some: "currentSlot g = Some ci \<Longrightarrow> ci < length (players g)"
  by (auto simp: currentSlot_def split: jsIndex.splits if_splits)

lemma drawFromDiscardPile_cards:
  assumes "drawFromDiscardPile g = Some (Returns (r, g'))"
  shows "cardsInPlay g' = cardsInPlay g"
proof (cases "drawnCard g \<noteq> None \<or> discardPile g = []")
  case True
  with assms show ?thesis by (auto simp: drawFromDiscardPile_def split: if_splits)
next
  case False
  then have ne: "discardPile g \<noteq> []" and nd: "drawnCard g = None" by auto
  from assms False obtain c where c: "last (discardPile g) = Some c"
    by (cases "last (discardPile g)") (auto simp: drawFromDiscardPile_def)
  from butlast_last_mset[OF ne] c
  have m: "mset (butlast (discardPile g)) + {#Some c#} = mset (discardPile g)" by simp
  from assms ne nd c show ?thesis
    by (auto simp: drawFromDiscardPile_def Let_def cardsInPlay_def optCard_simps m[symmetric]
             split: if_splits)
qed

lemma replaceCardInHand_cards:
  assumes "replaceCardInHand i g = Some (Returns (r, g'))" "\<not> roundEnded g'"
  shows "cardsInPlay g' = cardsInPlay g"
proof (cases "success r")
  case False
  then obtain e where "r = Failure e" by (cases r) auto
  with assms(1) replaceCardInHand_failure show ?thesis by blast
next
  case True
  with assms(1) obtain dc where dc: "drawnCard g = Some dc"
    by (cases "drawnCard g") (auto simp: replaceCardInHand_def)
  with assms(1) obtain ci where ci: "currentSlot g = Some ci"
    by (cases "currentSlot g") (auto simp: replaceCardInHand_def)
  from True assms(1) dc ci have i: "0 \<le> i" "nat i < length (hand (players g ! ci))"
    by (auto simp: replaceCardInHand_def split: if_splits)
  let ?old = "hand (players g ! ci) ! nat i"
  let ?p = "(players g ! ci)\<lparr>hand := (hand (players g ! ci))[nat i := dc]\<rparr>"
  let ?h = "(updPlayer ci (\<lambda>p. p\<lparr>hand := (hand p)[nat i := dc]\<rparr>) g)
              \<lparr>discardPile := discardPile g @ [Some ?old], drawnCard := None,
                drawnFromDiscard := False\<rparr>"
  from i have ni: "\<not> (i < 0 \<or> i \<ge> int (length (hand (players g ! ci))))" by linarith
  from assms(1) dc ci ni have "endTurn ?h = Some (Returns g')"
    by (simp add: replaceCardInHand_def Let_def returning_eq updPlayer_fields)
  from endTurn_cards[OF this assms(2)] have g': "deck g' = deck g"
    "discardPile g' = discardPile g @ [Some ?old]" "players g' = (players g)[ci := ?p]"
    "drawnCard g' = None"
    by (simp_all add: updPlayer_fields)
  have "handsOf ((players g)[ci := ?p]) + mset (map Some (hand (players g ! ci)))
          = handsOf (players g) + mset (map Some ((hand (players g ! ci))[nat i := dc]))"
    using handsOf_update[OF currentSlot_Some[OF ci], of ?p] by simp
  then have "handsOf ((players g)[ci := ?p]) + mset (map Some (hand (players g ! ci)))
               + {#Some ?old#}
          = handsOf (players g) + (mset (map Some (hand (players g ! ci))) + {#Some dc#})"
    using mset_Some_update[OF i(2), of dc] by (simp add: ac_simps)
  then have "handsOf ((players g)[ci := ?p]) + {#Some ?old#} = handsOf (players g) + {#Some dc#}"
    by (simp add: ac_simps)
  then show ?thesis
    by (simp add: cardsInPlay_def g' dc optCard_simps ac_simps)
qed

lemma discardDrawnCard_cards:
  assumes "discardDrawnCard g = Some (Returns (r, g'))" "\<not> roundEnded g'"
  shows "cardsInPlay g' = cardsInPlay g"
  using assms
  by (auto simp: discardDrawnCard_def Let_def cardsInPlay_def optCard_simps
           split: if_splits dest!: returning_endTurn_cards)

lemma usePeek_cards:
  assumes "usePeek i g = Some (Returns (r, g'))" "\<not> roundEnded g'"
  shows "cardsInPlay g' = cardsInPlay g"
  using assms
  by (auto simp: usePeek_def Let_def cardsInPlay_def optCard_simps notDrawn_def
           split: if_splits option.splits dest!: returning_endTurn_cards)

lemma declineSwap_cards:
  assumes "declineSwap g = Some (Returns (r, g'))" "\<not> roundEnded g'"
  shows "cardsInPlay g' = cardsInPlay g"
  using assms
  by (auto simp: declineSwap_def Let_def cardsInPlay_def optCard_simps notDrawn_def
           split: if_splits option.splits dest!: returning_endTurn_cards)

lemma useSwap_cards:
  assumes "useSwap i opp j g = Some (Returns (r, g'))" "\<not> roundEnded g'"
  shows "cardsInPlay g' = cardsInPlay g"
proof (cases "success r")
  case False
  then obtain e where "r = Failure e" by (cases r) auto
  with assms(1) useSwap_failure show ?thesis by blast
next
  case True
  let ?a = "\<lambda>ci. hand (players g ! ci) ! nat i" and ?b = "\<lambda>oi. hand (players g ! oi) ! nat j"
  from useSwap_success[OF assms(1) True] obtain ci oi where
    ci: "currentSlot g = Some ci" and oi: "findPlayer opp (players g) = Some oi"
    and ne: "pid (players g ! oi) \<noteq> pid (players g ! ci)"
    and i: "nat i < length (hand (players g ! ci))"
    and j: "nat j < length (hand (players g ! oi))"
    and et: "endTurn ((updPlayer oi (\<lambda>p. p\<lparr>knownCards := knownAssign (knownCards p) (nat j) False\<rparr>)
            (updPlayer ci (\<lambda>p. p\<lparr>knownCards := knownAssign (knownCards p) (nat i) False\<rparr>)
            (updPlayer oi (\<lambda>p. p\<lparr>hand := (hand p)[nat j := ?a ci]\<rparr>)
            (updPlayer ci (\<lambda>p. p\<lparr>hand := (hand p)[nat i := ?b oi]\<rparr>) g))))
           \<lparr>discardPile := discardPile g @ [drawnCard g],
             drawnCard := None, drawnFromDiscard := False\<rparr>) = Some (Returns g')"
    by blast
  have cl: "ci < length (players g)" by (rule currentSlot_Some[OF ci])
  have ol: "oi < length (players g)" using findPlayer_Some[OF oi] by simp
  have cne: "ci \<noteq> oi" using ne by auto
  let ?P1 = "(players g ! ci)\<lparr>hand := (hand (players g ! ci))[nat i := ?b oi],
                 knownCards := knownAssign (knownCards (players g ! ci)) (nat i) False\<rparr>"
  let ?P2 = "(players g ! oi)\<lparr>hand := (hand (players g ! oi))[nat j := ?a ci],
                 knownCards := knownAssign (knownCards (players g ! oi)) (nat j) False\<rparr>"
  from endTurn_cards[OF et assms(2)] cl ol cne
  have g': "deck g' = deck g" "discardPile g' = discardPile g @ [drawnCard g]"
    "players g' = (players g)[ci := ?P1, oi := ?P2]" "drawnCard g' = None"
    by (simp_all add: updPlayer_fields list_update_swap[of ci oi])
  from assms(1) True obtain dc where dc: "drawnCard g = Some dc"
    by (cases "drawnCard g") (auto simp: useSwap_def notDrawn_def)
  show ?thesis
  proof (rule multiset_eqI)
    fix x
    note c = arg_cong[where f = "\<lambda>m. count m x"]
    have e1: "count (handsOf ((players g)[ci := ?P1])) x
              + count (mset (map Some (hand (players g ! ci)))) x
            = count (handsOf (players g)) x
              + count (mset (map Some ((hand (players g ! ci))[nat i := ?b oi]))) x"
      using c[OF handsOf_update[OF cl, of ?P1]] by simp
    have e2: "count (handsOf ((players g)[ci := ?P1, oi := ?P2])) x
              + count (mset (map Some (hand (players g ! oi)))) x
            = count (handsOf ((players g)[ci := ?P1])) x
              + count (mset (map Some ((hand (players g ! oi))[nat j := ?a ci]))) x"
      using c[OF handsOf_update[of oi "(players g)[ci := ?P1]" ?P2]] ol cne by simp
    have e3: "count (mset (map Some ((hand (players g ! ci))[nat i := ?b oi]))) x
              + count {#Some (?a ci)#} x
            = count (mset (map Some (hand (players g ! ci)))) x + count {#Some (?b oi)#} x"
      using c[OF mset_Some_update[OF i, of "?b oi"]] by (simp only: count_union)
    have e4: "count (mset (map Some ((hand (players g ! oi))[nat j := ?a ci]))) x
              + count {#Some (?b oi)#} x
            = count (mset (map Some (hand (players g ! oi)))) x + count {#Some (?a ci)#} x"
      using c[OF mset_Some_update[OF j, of "?a ci"]] by (simp only: count_union)
    from e1 e2 e3 e4 have "count (handsOf ((players g)[ci := ?P1, oi := ?P2])) x
        = count (handsOf (players g)) x" by linarith
    then show "count (cardsInPlay g') x = count (cardsInPlay g) x"
      by (simp add: cardsInPlay_def g' dc optCard_simps)
  qed
qed

lemma handsOf_addCard:
  "pi < length ps \<Longrightarrow> handsOf (ps[pi := addCard c (ps ! pi)]) = handsOf ps + {#Some c#}"
  using handsOf_update[of pi ps "addCard c (ps ! pi)"] by (simp add: addCard_def)

lemma useAddCard_cards:
  assumes "useAddCard g = Some (Returns (r, g'))" "nullFree g" "\<not> roundEnded g'"
  shows "cardsInPlay g' = cardsInPlay g"
proof (rule multiset_eqI)
  fix x
  from assms show "count (cardsInPlay g') x = count (cardsInPlay g) x"
    by (auto simp: useAddCard_def Let_def cardsInPlay_def optCard_simps notDrawn_def
               updPlayer_fields handsOf_addCard
             split: if_splits option.splits prod.splits outcome.splits
             dest!: draw_step[where x = x, rotated] returning_endTurn_cards currentSlot_Some)
qed

lemma handleDraw2Card_cards:
  assumes "handleDraw2Card a i g = Some (Returns (r, g'))" "nullFree g" "\<not> roundEnded g'"
    and "a = ''discard'' \<longrightarrow> drawnCard g \<noteq> None"
  shows "cardsInPlay g' = cardsInPlay g"
proof (cases "draw2ChainActive g")
  case False
  with assms(1) show ?thesis by (auto simp: handleDraw2Card_def)
next
  case active: True
  show ?thesis
  proof (cases "if a = ''use'' then i else None")
    case (Some ix)
    with assms(1) active obtain g1 where
      g1: "replaceCardInHand ix g = Some (Returns (r, g1))"
      and g': "g' = g1 \<or> g' = g1\<lparr>draw2ChainActive := False, draw2CardsRemaining := 0\<rparr>"
      by (auto simp: handleDraw2Card_def split: option.splits outcome.splits if_splits)
    from g' assms(3) have "\<not> roundEnded g1" by auto
    from replaceCardInHand_cards[OF g1 this] g' show ?thesis
      by (auto simp: cardsInPlay_def)
  next
    case None
    show ?thesis
    proof (rule multiset_eqI)
      fix x
      from assms active None show "count (cardsInPlay g') x = count (cardsInPlay g) x"
        by (auto simp: handleDraw2Card_def Let_def cardsInPlay_def optCard_simps nullFree_def
             split: if_splits option.splits prod.splits
             dest!: draw_step[where x = x, rotated] returning_endTurn_cards)
    qed
  qed
qed

lemma knock_cards:
  assumes "knock g = Some (Returns (r, g'))" "drawnCard g = None"
  shows "cardsInPlay g' = cardsInPlay g"
proof -
  from knock_result[OF assms(1)] consider "g' = g"
    | k where "g' = g\<lparr>knockerId := k, finalRoundActive := True,
                       playersCompletedFinalTurn := 0, drawnCard := None,
                       drawnFromDiscard := False, currentPlayerIndex := currentPlayerIndex g'\<rparr>"
    by blast
  then show ?thesis
  proof cases
    case 1
    then show ?thesis by simp
  next
    case 2
    have "deck g' = deck g" "discardPile g' = discardPile g" "players g' = players g"
      "drawnCard g' = None"
      by (subst 2, simp)+
    with assms(2) show ?thesis by (simp add: cardsInPlay_def)
  qed
qed

lemma act_cards:
  assumes "act a g = Some (Returns (r, g'))" "nullFree g" "\<not> roundEnded g'" "keepsCards a g"
  shows "cardsInPlay g' = cardsInPlay g"
proof (cases a)
  case DrawFromDiscardPile
  with assms show ?thesis by (simp add: drawFromDiscardPile_cards)
next
  case DrawFromDeck
  with assms show ?thesis by (simp add: drawFromDeck_cards)
next
  case (ReplaceCardInHand i)
  with assms show ?thesis by (simp add: replaceCardInHand_cards)
next
  case DiscardDrawnCard
  with assms show ?thesis by (simp add: discardDrawnCard_cards)
next
  case (UsePeek i)
  with assms show ?thesis by (simp add: usePeek_cards)
next
  case (UseSwap i opp j)
  with assms show ?thesis by (simp add: useSwap_cards)
next
  case DeclineSwap
  with assms show ?thesis by (simp add: declineSwap_cards)
next
  case UseDraw2
  with assms show ?thesis by (simp add: useDraw2_cards)
next
  case (HandleDraw2Card x i)
  with assms have "handleDraw2Card x i g = Some (Returns (r, g'))"
    "x = ''discard'' \<longrightarrow> drawnCard g \<noteq> None" by auto
  from handleDraw2Card_cards[OF this(1) assms(2,3) this(2)] show ?thesis .
next
  case UseAddCard
  with assms show ?thesis by (simp add: useAddCard_cards)
next
  case Knock
  with assms show ?thesis by (simp add: knock_cards)
qed

lemma cardsInPlay_nullFree:
  assumes "cardsInPlay g = mset (map Some xs)"
  shows "nullFree g"
proof -
  have "None \<notin># mset (map Some xs)" by auto
  with assms have "None \<notin># cardsInPlay g" by simp
  then show ?thesis by (auto simp: nullFree_def cardsInPlay_def)
qed

lemma size_handsOf: "size (handsOf ps) = sum_list (map (\<lambda>p. length (hand p)) ps)"
  by (induction ps) (simp_all add: handsOf_def)

lemma size_cardsInPlay: "size (cardsInPlay g) = cardCount g + size (optCard (drawnCard g))"
  by (simp add: cardsInPlay_def cardCount_def size_handsOf)

lemma length_freshDeck: "length freshDeck = 56"
  by code_simp

lemma handsOf_nth: "handsOf ps = (\<Sum>i\<leftarrow>[0..<length ps]. mset (map Some (hand (ps ! i))))"
proof -
  have "map (\<lambda>i. mset (map Some (hand (ps ! i)))) [0..<length ps]
        = map (\<lambda>p. mset (map Some (hand p))) ps"
    by (rule nth_equalityI) auto
  then show ?thesis by (simp add: handsOf_def)
qed

lemma dealCards_cards:
  "dealCards n pi g = Some g' \<Longrightarrow> pi < length (players g) \<Longrightarrow> nullFree g \<Longrightarrow>
     nullFree g' \<and> cardsInPlay g' = cardsInPlay g"
proof (induction n arbitrary: g)
  case 0
  then show ?case by simp
next
  case (Suc n)
  let ?f = "\<lambda>c p. p\<lparr>hand := hand p @ [c], knownCards := knownCards p @ [False]\<rparr>"
  from Suc.prems(1) obtain c g1 where d: "drawCard g = (Some c, g1)"
    and r: "dealCards n pi (updPlayer pi (?f c) g1) = Some g'"
    by (auto split: prod.splits option.splits)
  note ds = draw_step[OF Suc.prems(3) d]
  have p1: "players g1 = players g" and n1: "nullFree g1" and dc: "drawnCard g1 = drawnCard g"
    using ds by simp_all
  have n2: "nullFree (updPlayer pi (?f c) g1)" using n1 by (simp add: nullFree_def updPlayer_fields)
  have l2: "pi < length (players (updPlayer pi (?f c) g1))"
    using Suc.prems(2) p1 by (simp add: updPlayer_fields)
  have "cardsInPlay (updPlayer pi (?f c) g1) = cardsInPlay g"
  proof (rule multiset_eqI)
    fix x
    have "count (mset (deck g1)) x + count (mset (discardPile g1)) x + count {#Some c#} x
          = count (mset (deck g)) x + count (mset (discardPile g)) x"
      using draw_step[OF Suc.prems(3) d, of x] by (simp only: optCard_simps)
    moreover have "handsOf ((players g)[pi := ?f c (players g ! pi)])
                   = handsOf (players g) + {#Some c#}"
      using handsOf_update[OF Suc.prems(2), of "?f c (players g ! pi)"] by simp
    ultimately show "count (cardsInPlay (updPlayer pi (?f c) g1)) x = count (cardsInPlay g) x"
      by (auto simp: cardsInPlay_def updPlayer_fields p1 dc split: if_splits)
  qed
  with Suc.IH[OF r l2 n2] show ?case by simp
qed

lemma dealPlayer_cards:
  assumes "dealPlayer pi g = Some g'" "pi < length (players g)" "nullFree g"
  shows "nullFree g' \<and> cardsInPlay g' + mset (map Some (hand (players g ! pi))) = cardsInPlay g"
proof -
  let ?g0 = "updPlayer pi (\<lambda>p. p\<lparr>hand := [], knownCards := []\<rparr>) g"
  have d: "dealCards 4 pi ?g0 = Some g'" using assms(1) by (simp add: dealPlayer_def)
  have l: "pi < length (players ?g0)" using assms(2) by (simp add: updPlayer_fields)
  have n: "nullFree ?g0" using assms(3) by (simp add: nullFree_def updPlayer_fields)
  have "cardsInPlay ?g0 + mset (map Some (hand (players g ! pi))) = cardsInPlay g"
    using handsOf_update[OF assms(2), of "(players g ! pi)\<lparr>hand := [], knownCards := []\<rparr>"]
    by (simp add: cardsInPlay_def updPlayer_fields)
  with dealCards_cards[OF d l n] show ?thesis by simp
qed

lemma dealAll_cards:
  "dealAll pis g = Some g' \<Longrightarrow> distinct pis \<Longrightarrow> \<forall>pi \<in> set pis. pi < length (players g) \<Longrightarrow>
   nullFree g \<Longrightarrow>
     nullFree g' \<and> cardsInPlay g' + (\<Sum>i\<leftarrow>pis. mset (map Some (hand (players g ! i))))
                    = cardsInPlay g"
proof (induction pis arbitrary: g)
  case Nil
  then show ?case by simp
next
  case (Cons pi pis)
  from Cons.prems(1) obtain g1 where d: "dealPlayer pi g = Some g1" and r: "dealAll pis g1 = Some g'"
    by (auto split: option.splits)
  from Cons.prems(3) have pi: "pi < length (players g)" by simp
  from dealPlayer_result[OF d pi] have l1: "length (players g1) = length (players g)"
    and o1: "\<forall>q < length (players g). q \<noteq> pi \<longrightarrow> players g1 ! q = players g ! q" by simp_all
  from dealPlayer_cards[OF d pi Cons.prems(4)] have n1: "nullFree g1"
    and c1: "cardsInPlay g1 + mset (map Some (hand (players g ! pi))) = cardsInPlay g" by simp_all
  have b1: "\<forall>q \<in> set pis. q < length (players g1)" using Cons.prems(3) l1 by simp
  from Cons.prems(2) have dp: "distinct pis" and ni: "pi \<notin> set pis" by simp_all
  have eq: "(\<Sum>i\<leftarrow>pis. mset (map Some (hand (players g1 ! i))))
        = (\<Sum>i\<leftarrow>pis. mset (map Some (hand (players g ! i))))"
    by (rule arg_cong[where f = sum_list]) (use o1 ni Cons.prems(3) in auto)
  from Cons.IH[OF r dp b1 n1] have n': "nullFree g'"
    and c': "cardsInPlay g' + (\<Sum>i\<leftarrow>pis. mset (map Some (hand (players g ! i)))) = cardsInPlay g1"
    unfolding eq by simp_all
  have "cardsInPlay g' + (\<Sum>i\<leftarrow>pi # pis. mset (map Some (hand (players g ! i))))
        = (cardsInPlay g' + (\<Sum>i\<leftarrow>pis. mset (map Some (hand (players g ! i)))))
          + mset (map Some (hand (players g ! pi)))"
    by (simp add: ac_simps)
  also have "\<dots> = cardsInPlay g" by (simp only: c' c1)
  finally show ?case using n' by blast
qed

lemma startRound_cards:
  assumes sr: "startRound g = Some (Returns (True, g'))" and dn: "drawnCard g = None"
  shows "cardsInPlay g' = mset (map Some freshDeck)"
proof -
  let ?g2 = "(initializeDeck g)\<lparr>discardPile := [], roundEnded := False, knockerId := None,
                         finalRoundActive := False, playersCompletedFinalTurn := 0\<rparr>"
  note fr = shuffleDeck_frame[of "g\<lparr>deck := map Some freshDeck\<rparr>"]
  have p2: "players ?g2 = players g" and dn2: "drawnCard ?g2 = None"
    using arg_cong[where f = players, OF fr] arg_cong[where f = drawnCard, OF fr] dn
    by (simp_all add: initializeDeck_def)
  have m2: "mset (deck ?g2) = mset (map Some freshDeck)"
    using shuffleDeck_mset[of "g\<lparr>deck := map Some freshDeck\<rparr>"] by (simp add: initializeDeck_def)
  have "None \<notin># mset (map Some freshDeck)" by auto
  then have "None \<notin> set (deck ?g2)" unfolding m2[symmetric] by simp
  then have n2: "nullFree ?g2" by (simp add: nullFree_def)
  have c2: "cardsInPlay ?g2 = mset (map Some freshDeck) + handsOf (players g)"
    using m2 by (simp add: cardsInPlay_def p2 dn2 optCard_simps)
  from sr obtain g3 d g4 c g5 where
    da: "dealAll [0..<length (players ?g2)] ?g2 = Some g3"
    and dr: "drawCard g3 = (d, g4)"
    and fl: "firstDiscardLoop d g4 = Some (Returns (c, g5))"
    and g': "g' = g5\<lparr>discardPile := discardPile g5 @ [Some c],
                      currentPlayerIndex := Idx 0, gameStarted := True\<rparr>"
    by (auto simp: startRound_def Let_def split: if_splits option.splits prod.splits outcome.splits)
  from dealAll_cards[OF da _ _ n2] have n3: "nullFree g3"
    and "cardsInPlay g3 + handsOf (players ?g2) = cardsInPlay ?g2"
    by (simp_all add: handsOf_nth)
  then have c3: "cardsInPlay g3 = mset (map Some freshDeck)" unfolding c2 p2 by simp
  from fl obtain dc where d: "d = Some dc"
    by (cases d) (auto simp: firstDiscardLoop.simps)
  from firstDiscardLoop_result[OF fl]
  have f5: "g5 = g4\<lparr>deck := deck g5, randomUsed := randomUsed g5\<rparr>"
    and m5: "mset (deck g5) + {#Some c#} = mset (deck g4) + {#d#}" by auto
  have p5: "players g5 = players g4" and d5: "discardPile g5 = discardPile g4"
    and dn5: "drawnCard g5 = drawnCard g4"
    using arg_cong[where f = players, OF f5] arg_cong[where f = discardPile, OF f5]
      arg_cong[where f = drawnCard, OF f5] by simp_all
  show ?thesis
  proof (rule multiset_eqI)
    fix x
    have "count (mset (deck g4)) x + count (mset (discardPile g4)) x + count {#d#} x
          = count (mset (deck g3)) x + count (mset (discardPile g3)) x"
      using draw_step[OF n3 dr, of x] d by (simp only: optCard_simps)
    moreover have "count (mset (deck g5)) x + count {#Some c#} x
                   = count (mset (deck g4)) x + count {#d#} x"
      using arg_cong[where f = "\<lambda>m. count m x", OF m5] by (simp only: count_union)
    moreover have "players g4 = players g3" "drawnCard g4 = drawnCard g3"
      using draw_step[OF n3 dr, of x] by simp_all
    ultimately have "count (cardsInPlay g') x = count (cardsInPlay g3) x"
      unfolding g' by (auto simp: cardsInPlay_def p5 d5 dn5 split: if_splits)
    then show "count (cardsInPlay g') x = count (mset (map Some freshDeck)) x"
      by (simp only: c3)
  qed
qed

lemma inRound_cards: "inRound g \<Longrightarrow> cardsInPlay g = mset (map Some freshDeck)"
proof (induction rule: inRound.induct)
  case (start g g')
  then show ?case by (simp add: startRound_cards)
next
  case (step g a r g')
  from act_cards[OF step.hyps(3) cardsInPlay_nullFree[OF step.IH] step.hyps(4) step.hyps(2)]
  show ?case using step.IH by simp
qed

text \<open>Claim C1. In every state of a round (reached from a \<open>startRound\<close> that returned true,
  called with no card pending, through actions that return, \<open>knock\<close> being called with no
  card pending and \<open>handleDraw2Card\<close> discarding only a pending card, as long as the round
  has not ended), the draw pile, the discard pile, the hands and the pending drawn card
  together hold exactly the 56 cards of the deck: the sizes of the piles and hands add up to
  56, or to 55 while a card is pending.\<close>

theorem cards_conserved:
  assumes "inRound g"
  shows "cardsInPlay g = mset (map Some freshDeck)
         \<and> cardCount g + size (optCard (drawnCard g)) = 56"
proof -
  have c: "cardsInPlay g = mset (map Some freshDeck)" by (rule inRound_cards[OF assms])
  have "size (cardsInPlay g) = 56" unfolding c by (simp add: length_freshDeck)
  then have "cardCount g + size (optCard (drawnCard g)) = 56" by (simp only: size_cardsInPlay)
  with c show ?thesis by blast
qed

theorem cards_conserved_witness:
  "inRound firstDraw \<and> cardsInPlay firstDraw = mset (map Some freshDeck)
   \<and> cardCount firstDraw + size (optCard (drawnCard firstDraw)) = 56
   \<and> cardCount firstDraw = 55"
proof -
  let ?g1 = "the (stateAfter (startRound lobby3))"
  have "resultOf (startRound lobby3) = Some True" by code_simp
  then have a: "startRound lobby3 = Some (Returns (True, ?g1))" by (rule resultOf_Some)
  have "drawnCard lobby3 = None" by (simp add: lobby3_def newGame_def)
  from inRound.start[OF this a] have i1: "inRound ?g1" .
  have "map_option success (resultOf (drawFromDeck ?g1)) = Some True" by code_simp
  then obtain r where "resultOf (drawFromDeck ?g1) = Some r" by auto
  from resultOf_Some[OF this] have b: "act DrawFromDeck ?g1 = Some (Returns (r, firstDraw))"
    by (simp add: firstDraw_def)
  have e: "\<not> roundEnded firstDraw" unfolding firstDraw_def by code_simp
  have i2: "inRound firstDraw" by (rule inRound.step[OF i1 _ b e]) simp
  have n: "cardCount firstDraw = 55" unfolding firstDraw_def by code_simp
  from cards_conserved[OF i2] i2 n show ?thesis by simp
qed

text \<open>Claim C1, as stated: after \<open>startRound\<close> with three players the piles and hands hold 56
  cards, not 72, and after the first draw from the deck they hold 55, the drawn card being
  in none of them.\<close>

theorem startRound_has_56_cards:
  "resultOf (startRound lobby3) = Some True
   \<and> cardCount (the (stateAfter (startRound lobby3))) = 56
   \<and> map_option success (resultOf (drawFromDeck (the (stateAfter (startRound lobby3))))) = Some True
   \<and> cardCount firstDraw = 55"
  unfolding firstDraw_def by code_simp

subsection \<open>A draw of \<open>null\<close> at the end of the round\<close>

text \<open>Claim C9. At the end of the round a slot should keep its power card only when the deck,
  with the reshuffle, is exhausted. \<open>endRound\<close> leaves the loop of a slot at any draw that
  returns \<open>null\<close>, and \<open>drawCard\<close> returns \<open>null\<close> also when it pops a \<open>null\<close> entry: here
  the Peek card of \<open>a\<close> is kept, scoring 0, while the deck still holds a number card.\<close>

theorem endRound_null_draw_keeps_power_card:
  "hand (players nullOnTop ! 0) ! 0 = Card Peek None
   \<and> deck nullOnTop = [Some (Card Number (Some 5)), None]
   \<and> handAndMask 0 (endRound nullOnTop)
       = ([Card Peek None, Card Number (Some 2), Card Number (Some 3), Card Number (Some 4)],
          [False, False, False, False])
   \<and> deck (endRound nullOnTop) = [Some (Card Number (Some 5))]
   \<and> discardPile (endRound nullOnTop) = [Some (Card Number (Some 0))]
   \<and> \<not> exhausted (endRound nullOnTop)
   \<and> fst (drawCard (endRound nullOnTop)) = Some (Card Number (Some 5))
   \<and> score (players (endRound nullOnTop) ! 0) = 9
   \<and> roundEnded (endRound nullOnTop)"
  by code_simp

subsection \<open>Swap, also in the last turn of the final round\<close>

lemma endRound_slots:
  assumes "q < length (players g)"
  shows "playerAfterRound (players g ! q) (players (endRound g) ! q) True"
proof -
  let ?F = "fold (\<lambda>pi h. endRoundPlayer h pi) [0..<length (players g)] g"
  have pl: "players (endRound g) = players ?F" by (simp add: endRound_def)
  from fold_endRoundPlayer[of "[0..<length (players g)]" g] assms
  have "playerAfterRound (players g ! q) (players ?F ! q) (nullFree g \<longrightarrow> exhausted ?F)"
    by simp
  then show ?thesis unfolding pl by (rule playerAfterRound_mono) simp
qed

lemma endTurn_endsRound:
  assumes "endTurn g = Some (Returns g')" "endsRound g"
  shows "g' = endRound (g\<lparr>drawnCard := None, drawnFromDiscard := False,
       playersCompletedFinalTurn := playersCompletedFinalTurn g + 1\<rparr>)"
  using assms by (auto simp: endTurn_def endsRound_def Let_def)

text \<open>Claim C5, as the code has it. When \<open>useSwap(i, opp, j)\<close> succeeds, the hands \<open>X\<close>
  after the exchange are these: slot \<open>i\<close> of the acting player holds the card that was in
  slot \<open>j\<close> of the opponent and the other way round, both known-mask entries read false
  whatever they were, and every other slot, mask entry and player is as before. The turn
  then ends. When it does not end the round, \<open>X\<close> are the hands of the state returned. When
  it is the last turn of the final round, \<open>endRound\<close> runs on \<open>X\<close> before the call returns:
  the state returned is \<open>endRound\<close> of the state with the hands \<open>X\<close>, so that every slot of
  \<open>X\<close> with a number card still holds that card and its mask entry, and a slot of \<open>X\<close> with
  a power card holds a number card marked known, or still that power card.\<close>

theorem useSwap_exchanges:
  assumes "useSwap i opp j g = Some (Returns (r, g'))" and "success r"
  shows "\<exists>ci oi X. currentSlot g = Some ci \<and> findPlayer opp (players g) = Some oi \<and> ci \<noteq> oi
     \<and> 0 \<le> i \<and> nat i < length (hand (players g ! ci))
     \<and> 0 \<le> j \<and> nat j < length (hand (players g ! oi))
     \<and> length X = length (players g)
     \<and> hand (X ! ci) = (hand (players g ! ci))[nat i := hand (players g ! oi) ! nat j]
     \<and> hand (X ! oi) = (hand (players g ! oi))[nat j := hand (players g ! ci) ! nat i]
     \<and> (\<forall>k. knownAt (knownCards (X ! ci)) k
              = (k \<noteq> nat i \<and> knownAt (knownCards (players g ! ci)) k))
     \<and> (\<forall>k. knownAt (knownCards (X ! oi)) k
              = (k \<noteq> nat j \<and> knownAt (knownCards (players g ! oi)) k))
     \<and> (\<forall>q < length (players g). q \<noteq> ci \<longrightarrow> q \<noteq> oi \<longrightarrow> X ! q = players g ! q)
     \<and> (if endsRound g
        then g' = endRound (g\<lparr>players := X, discardPile := discardPile g @ [drawnCard g],
                               drawnCard := None, drawnFromDiscard := False,
                               playersCompletedFinalTurn := playersCompletedFinalTurn g + 1\<rparr>)
           \<and> (\<forall>q < length (players g). playerAfterRound (X ! q) (players g' ! q) True)
        else players g' = X)"
proof -
  let ?h = "(updPlayer oi (\<lambda>p. p\<lparr>knownCards := knownAssign (knownCards p) (nat j) False\<rparr>)
            (updPlayer ci (\<lambda>p. p\<lparr>knownCards := knownAssign (knownCards p) (nat i) False\<rparr>)
            (updPlayer oi (\<lambda>p. p\<lparr>hand := (hand p)[nat j := hand (players g ! ci) ! nat i]\<rparr>)
            (updPlayer ci (\<lambda>p. p\<lparr>hand := (hand p)[nat i := hand (players g ! oi) ! nat j]\<rparr>) g))))
           \<lparr>discardPile := discardPile g @ [drawnCard g],
             drawnCard := None, drawnFromDiscard := False\<rparr>"
  from useSwap_success[OF assms(1,2)] obtain ci oi where
    ci: "currentSlot g = Some ci" and oi: "findPlayer opp (players g) = Some oi"
    and ne: "pid (players g ! oi) \<noteq> pid (players g ! ci)"
    and i: "0 \<le> i" "nat i < length (hand (players g ! ci))"
    and j: "0 \<le> j" "nat j < length (hand (players g ! oi))"
    and et: "endTurn ((updPlayer oi (\<lambda>p. p\<lparr>knownCards := knownAssign (knownCards p) (nat j) False\<rparr>)
            (updPlayer ci (\<lambda>p. p\<lparr>knownCards := knownAssign (knownCards p) (nat i) False\<rparr>)
            (updPlayer oi (\<lambda>p. p\<lparr>hand := (hand p)[nat j := hand (players g ! ci) ! nat i]\<rparr>)
            (updPlayer ci (\<lambda>p. p\<lparr>hand := (hand p)[nat i := hand (players g ! oi) ! nat j]\<rparr>) g))))
           \<lparr>discardPile := discardPile g @ [drawnCard g],
             drawnCard := None, drawnFromDiscard := False\<rparr>) = Some (Returns g')"
      (is "endTurn ?h = _")
    by blast
  have cl: "ci < length (players g)"
    using ci by (auto simp: currentSlot_def split: jsIndex.splits if_splits)
  have ol: "oi < length (players g)" using findPlayer_Some[OF oi] by simp
  have cne: "ci \<noteq> oi" using ne by auto
  let ?X = "(players g)
       [ci := (players g ! ci)\<lparr>hand := (hand (players g ! ci))[nat i := hand (players g ! oi) ! nat j],
                               knownCards := knownAssign (knownCards (players g ! ci)) (nat i) False\<rparr>,
        oi := (players g ! oi)\<lparr>hand := (hand (players g ! oi))[nat j := hand (players g ! ci) ! nat i],
                               knownCards := knownAssign (knownCards (players g ! oi)) (nat j) False\<rparr>]"
  have ph: "players ?h = ?X"
    using cl ol cne by (simp add: updPlayer_fields list_update_swap[of ci oi])
  have hg: "?h = g\<lparr>players := ?X, discardPile := discardPile g @ [drawnCard g],
                    drawnCard := None, drawnFromDiscard := False\<rparr>"
    using cl ol cne by (simp add: updPlayer_def list_update_swap[of ci oi])
  have eh: "endsRound ?h = endsRound g"
    by (simp add: endsRound_def updPlayer_fields)
  have 1: "hand (?X ! ci) = (hand (players g ! ci))[nat i := hand (players g ! oi) ! nat j]"
    and 2: "hand (?X ! oi) = (hand (players g ! oi))[nat j := hand (players g ! ci) ! nat i]"
    and 3: "knownCards (?X ! ci) = knownAssign (knownCards (players g ! ci)) (nat i) False"
    and 4: "knownCards (?X ! oi) = knownAssign (knownCards (players g ! oi)) (nat j) False"
    and 5: "length ?X = length (players g)"
    and 6: "\<forall>q < length (players g). q \<noteq> ci \<longrightarrow> q \<noteq> oi \<longrightarrow> ?X ! q = players g ! q"
    using cl ol cne by simp_all
  have 7: "if endsRound g
        then g' = endRound (g\<lparr>players := ?X, discardPile := discardPile g @ [drawnCard g],
                               drawnCard := None, drawnFromDiscard := False,
                               playersCompletedFinalTurn := playersCompletedFinalTurn g + 1\<rparr>)
           \<and> (\<forall>q < length (players g). playerAfterRound (?X ! q) (players g' ! q) True)
        else players g' = ?X"
  proof (cases "endsRound g")
    case True
    let ?G = "g\<lparr>players := ?X, discardPile := discardPile g @ [drawnCard g],
                               drawnCard := None, drawnFromDiscard := False,
                               playersCompletedFinalTurn := playersCompletedFinalTurn g + 1\<rparr>"
    from True eh have "endsRound ?h" by simp
    from endTurn_endsRound[OF et this] have g': "g' = endRound ?G"
      by (simp add: hg)
    have "playerAfterRound (?X ! q) (players g' ! q) True" if "q < length (players g)" for q
      using endRound_slots[of q ?G] that unfolding g' by simp
    with g' True show ?thesis by simp
  next
    case False
    with eh have "\<not> endsRound ?h" by simp
    from endTurn_players[OF et this] ph False show ?thesis by simp
  qed
  have 8: "\<forall>k. knownAt (knownCards (?X ! ci)) k
              = (k \<noteq> nat i \<and> knownAt (knownCards (players g ! ci)) k)"
    and 9: "\<forall>k. knownAt (knownCards (?X ! oi)) k
              = (k \<noteq> nat j \<and> knownAt (knownCards (players g ! oi)) k)"
    unfolding 3 4 by (simp_all add: knownAt_knownAssign)
  show ?thesis
    apply (rule exI[of _ ci], rule exI[of _ oi], rule exI[of _ ?X])
    apply (intro conjI)
    by (fact ci oi cne i j 1 2 5 6 7 8 9)+
qed

theorem useSwap_exchanges_witness:
  "useSwap 0 ''b'' 0 swapDrawn = Some (Returns (SwappedWith ''b'', swapDrawnAfter))
   \<and> success (SwappedWith ''b'') \<and> \<not> endsRound swapDrawn
   \<and> hand (players swapDrawnAfter ! 0) ! 0 = hand (players swapDrawn ! 1) ! 0
   \<and> hand (players swapDrawnAfter ! 1) ! 0 = hand (players swapDrawn ! 0) ! 0
   \<and> knownAt (knownCards (players swapDrawn ! 0)) 0
   \<and> \<not> knownAt (knownCards (players swapDrawnAfter ! 0)) 0
   \<and> knownAt (knownCards (players swapDrawn ! 1)) 0
   \<and> \<not> knownAt (knownCards (players swapDrawnAfter ! 1)) 0
   \<and> endsRound lastFinalSwap
   \<and> resultOf (useSwap 1 ''b'' 1 lastFinalSwap) = Some (SwappedWith ''b'')
   \<and> hand (players (the (stateAfter (useSwap 1 ''b'' 1 lastFinalSwap))) ! 0) ! 1
       = hand (players lastFinalSwap ! 1) ! 1
   \<and> hand (players (the (stateAfter (useSwap 1 ''b'' 1 lastFinalSwap))) ! 1) ! 1
       = hand (players lastFinalSwap ! 0) ! 1
   \<and> hand (players lastFinalSwap ! 0) ! 1 \<noteq> hand (players lastFinalSwap ! 1) ! 1"
proof -
  have a: "useSwap 0 ''b'' 0 swapDrawn = Some (Returns (SwappedWith ''b'', swapDrawnAfter))"
    by (simp add: useSwap_def swapDrawn_def swapDrawnAfter_def table2_def newGame_def seat_def
          notDrawn_def currentSlot_def updPlayer_def knownAssign_def Let_def
          endTurn_def advanceTurn.simps)
  have b: "success (SwappedWith ''b'')" by simp
  have c: "\<not> endsRound swapDrawn"
    by (simp add: endsRound_def swapDrawn_def table2_def newGame_def)
  from useSwap_exchanges[OF a b] c obtain ci oi X where
    ci: "currentSlot swapDrawn = Some ci" and oi: "findPlayer ''b'' (players swapDrawn) = Some oi"
    and h1: "hand (X ! ci)
              = (hand (players swapDrawn ! ci))[nat 0 := hand (players swapDrawn ! oi) ! nat 0]"
    and h2: "hand (X ! oi)
              = (hand (players swapDrawn ! oi))[nat 0 := hand (players swapDrawn ! ci) ! nat 0]"
    and k1: "\<forall>k. knownAt (knownCards (X ! ci)) k
              = (k \<noteq> nat 0 \<and> knownAt (knownCards (players swapDrawn ! ci)) k)"
    and k2: "\<forall>k. knownAt (knownCards (X ! oi)) k
              = (k \<noteq> nat 0 \<and> knownAt (knownCards (players swapDrawn ! oi)) k)"
    and x: "players swapDrawnAfter = X"
    by (simp only: if_False) blast
  from ci have ci0: "ci = 0"
    by (simp add: currentSlot_def swapDrawn_def table2_def newGame_def)
  from oi have oi1: "oi = 1"
    by (simp add: swapDrawn_def table2_def seat_def)
  have pre: "knownAt (knownCards (players swapDrawn ! 0)) 0"
       "knownAt (knownCards (players swapDrawn ! 1)) 0"
       "hand (players swapDrawn ! 0) \<noteq> []" "hand (players swapDrawn ! 1) \<noteq> []"
    by (simp_all add: swapDrawn_def table2_def seat_def knownAt_def)
  from h1 h2 k1 k2 pre have first:
    "hand (players swapDrawnAfter ! 0) ! 0 = hand (players swapDrawn ! 1) ! 0"
    "hand (players swapDrawnAfter ! 1) ! 0 = hand (players swapDrawn ! 0) ! 0"
    "\<not> knownAt (knownCards (players swapDrawnAfter ! 0)) 0"
    "\<not> knownAt (knownCards (players swapDrawnAfter ! 1)) 0"
    unfolding ci0 oi1 x by (simp_all add: nth_list_update)
  let ?G = "the (stateAfter (useSwap 1 ''b'' 1 lastFinalSwap))"
  have r: "resultOf (useSwap 1 ''b'' 1 lastFinalSwap) = Some (SwappedWith ''b'')" by code_simp
  then have a2: "useSwap 1 ''b'' 1 lastFinalSwap = Some (Returns (SwappedWith ''b'', ?G))"
    by (rule resultOf_Some)
  have e: "endsRound lastFinalSwap"
    by (simp add: endsRound_def lastFinalSwap_def swapDrawn_def table2_def newGame_def)
  from useSwap_exchanges[OF a2 b] e obtain di ei Y where
    di: "currentSlot lastFinalSwap = Some di"
    and ei: "findPlayer ''b'' (players lastFinalSwap) = Some ei"
    and y1: "hand (Y ! di)
              = (hand (players lastFinalSwap ! di))[nat 1 := hand (players lastFinalSwap ! ei) ! nat 1]"
    and y2: "hand (Y ! ei)
              = (hand (players lastFinalSwap ! ei))[nat 1 := hand (players lastFinalSwap ! di) ! nat 1]"
    and par: "\<forall>q < length (players lastFinalSwap). playerAfterRound (Y ! q) (players ?G ! q) True"
    by (simp only: if_True) blast
  from di have di0: "di = 0"
    by (simp add: currentSlot_def lastFinalSwap_def swapDrawn_def table2_def newGame_def)
  from ei have ei1: "ei = 1"
    by (simp add: lastFinalSwap_def swapDrawn_def table2_def seat_def)
  have hs: "hand (players lastFinalSwap ! 0) = [Card Number (Some 1), Card Number (Some 2),
                Card Number (Some 3), Card Number (Some 4)]"
    "hand (players lastFinalSwap ! 1) = [Card Peek None, Card Number (Some 6),
                Card Number (Some 7), Card Number (Some 8)]"
    "length (players lastFinalSwap) = 2"
    by (simp_all add: lastFinalSwap_def swapDrawn_def table2_def seat_def)
  note z1 = y1[unfolded di0 ei1 hs(1,2)] and z2 = y2[unfolded di0 ei1 hs(1,2)]
  have ly: "length (hand (Y ! 0)) = 4" "length (hand (Y ! 1)) = 4"
    unfolding z1 z2 by simp_all
  from par hs(3) have p0: "playerAfterRound (Y ! 0) (players ?G ! 0) True"
    and p1: "playerAfterRound (Y ! 1) (players ?G ! 1) True" by simp_all
  have "slotAfterRound (Y ! 0) (players ?G ! 0) 1 True"
    using p0 ly(1) unfolding playerAfterRound_def by auto
  moreover have "slotAfterRound (Y ! 1) (players ?G ! 1) 1 True"
    using p1 ly(2) unfolding playerAfterRound_def by auto
  ultimately have second:
    "hand (players ?G ! 0) ! 1 = hand (players lastFinalSwap ! 1) ! 1"
    "hand (players ?G ! 1) ! 1 = hand (players lastFinalSwap ! 0) ! 1"
    "hand (players lastFinalSwap ! 0) ! 1 \<noteq> hand (players lastFinalSwap ! 1) ! 1"
    unfolding slotAfterRound_def z1 z2 hs(1,2) by (simp_all add: isPowerCard_def)
  from a b c first pre(1,2) e r second show ?thesis by blast
qed

text \<open>Claim C5 as stated fails when the swap is the last turn of the final round: the Peek
  card that \<open>a\<close> received is replaced by a drawn number card and marked known before the
  call returns.\<close>

theorem useSwap_last_final_turn_replaces:
  "resultOf (useSwap 0 ''b'' 0 lastFinalSwap) = Some (SwappedWith ''b'')
   \<and> map_option (handAndMask 0) (stateAfter (useSwap 0 ''b'' 0 lastFinalSwap))
     = Some ([Card Number (Some 9), Card Number (Some 2), Card Number (Some 3),
              Card Number (Some 4)], [True, True, False, False])
   \<and> hand (players lastFinalSwap ! 1) ! 0 = Card Peek None"
  by code_simp

end
